theory Spec2Isabelle
  imports Main "HOL-Library.Word" "HOL-Library.Sublist"
begin

section \<open>JavaScript strings\<close>

text \<open>
  A JavaScript string is a sequence of 16-bit code units. The regular expressions of
  \<^verbatim>\<open>src/index.tsx\<close> carry no \<^verbatim>\<open>u\<close> flag, so they work on code units, and
  \<^verbatim>\<open>.\<close> excludes the four line terminators, two of which lie outside Latin-1.
\<close>

type_synonym code_unit = "16 word"
type_synonym jsstring = "code_unit list"

definition js :: "string \<Rightarrow> jsstring" where
  "js s = map of_char s"

definition STAR :: code_unit where "STAR = 0x2A"
definition BACKTICK :: code_unit where "BACKTICK = 0x60"
definition LF :: code_unit where "LF = 0x0A"
definition CR :: code_unit where "CR = 0x0D"

definition LineTerminator :: "code_unit \<Rightarrow> bool" where
  "LineTerminator c \<longleftrightarrow> c = 0x0A \<or> c = 0x0D \<or> c = 0x2028 \<or> c = 0x2029"

definition WhiteSpace :: "code_unit \<Rightarrow> bool" where
  "WhiteSpace c \<longleftrightarrow>
     c = 0x09 \<or> c = 0x0B \<or> c = 0x0C \<or> c = 0x20 \<or> c = 0xA0 \<or> c = 0x1680 \<or>
     (0x2000 \<le> c \<and> c \<le> 0x200A) \<or> c = 0x202F \<or> c = 0x205F \<or> c = 0x3000 \<or> c = 0xFEFF"

text \<open>\<^verbatim>\<open>String.prototype.trim\<close>: white space and line terminators go from both ends.\<close>

definition trim :: "jsstring \<Rightarrow> jsstring" where
  "trim s =
     rev (dropWhile (\<lambda>c. WhiteSpace c \<or> LineTerminator c)
       (rev (dropWhile (\<lambda>c. WhiteSpace c \<or> LineTerminator c) s)))"

section \<open>The regular expressions of the formatter\<close>

text \<open>
  A matcher attempts its pattern at the start of the text it is given and returns the
  captured group and the text after the match. \<open>lazy_dots d\<close> is \<^verbatim>\<open>(.*?)\<close> followed
  by the literal \<open>d\<close>: the shortest run of code units, none a line terminator, after
  which \<open>d\<close> stands.
\<close>

fun lazy_dots :: "jsstring \<Rightarrow> jsstring \<Rightarrow> (jsstring \<times> jsstring) option" where
  "lazy_dots d [] = (if d = [] then Some ([], []) else None)"
| "lazy_dots d (c # cs) =
     (if prefix d (c # cs) then Some ([], drop (length d) (c # cs))
      else if LineTerminator c then None
      else map_option (\<lambda>(g, rest). (c # g, rest)) (lazy_dots d cs))"

text \<open>\<^verbatim>\<open>/\*\*(.*?)\*\*/\<close> is \<open>match_delimited [STAR, STAR]\<close>, \<^verbatim>\<open>/\*(.*?)\*/\<close> is
  \<open>match_delimited [STAR]\<close>.\<close>

definition match_delimited :: "jsstring \<Rightarrow> jsstring \<Rightarrow> (jsstring \<times> jsstring) option" where
  "match_delimited d s = (if prefix d s then lazy_dots d (drop (length d) s) else None)"

text \<open>\<^verbatim>\<open>/`([^`]+)`/\<close>: a backtick, the longest run of other code units (at least one,
  line terminators allowed), a backtick.\<close>

definition match_code :: "jsstring \<Rightarrow> (jsstring \<times> jsstring) option" where
  "match_code s =
     (case s of
        [] \<Rightarrow> None
      | c # cs \<Rightarrow>
          if c \<noteq> BACKTICK then None
          else (let g = takeWhile (\<lambda>x. x \<noteq> BACKTICK) cs;
                    rest = dropWhile (\<lambda>x. x \<noteq> BACKTICK) cs
                in if g \<noteq> [] \<and> rest \<noteq> [] then Some (g, tl rest) else None))"

text \<open>\<^verbatim>\<open>/(\r\n|\n|\r)/\<close>: the alternatives in their order.\<close>

fun match_newline :: "jsstring \<Rightarrow> (jsstring \<times> jsstring) option" where
  "match_newline [] = None"
| "match_newline (c # cs) =
     (if c = CR \<and> cs \<noteq> [] \<and> hd cs = LF then Some ([CR, LF], tl cs)
      else if c = LF then Some ([LF], cs)
      else if c = CR then Some ([CR], cs)
      else None)"

text \<open>
  \<^verbatim>\<open>String.prototype.replace\<close> with a global pattern and a replacement built from the
  group: the text is scanned from the left; where the pattern matches, the replacement
  is emitted and the scan goes on after the match; where it does not, the code unit is
  copied. A match that consumes nothing makes the scan step over one code unit.
\<close>

function replace_all ::
  "(jsstring \<Rightarrow> (jsstring \<times> jsstring) option) \<Rightarrow> (jsstring \<Rightarrow> jsstring) \<Rightarrow> jsstring \<Rightarrow> jsstring"
where
  "replace_all m f [] = (case m [] of None \<Rightarrow> [] | Some (g, rest) \<Rightarrow> f g)"
| "replace_all m f (c # cs) =
     (case m (c # cs) of
        None \<Rightarrow> c # replace_all m f cs
      | Some (g, rest) \<Rightarrow>
          if length rest \<le> length cs then f g @ replace_all m f rest
          else f g @ c # replace_all m f cs)"
  by pat_completeness auto
termination
  by (relation "measure (\<lambda>(m, f, s). length s)") auto

text \<open>The chain of lines 114-118, repeated at lines 180-184.\<close>

definition markdown_to_html :: "jsstring \<Rightarrow> jsstring" where
  "markdown_to_html s =
     replace_all match_newline (\<lambda>g. js ''<br>'')
       (replace_all match_code (\<lambda>g. js ''<code>'' @ g @ js ''</code>'')
         (replace_all (match_delimited [STAR]) (\<lambda>g. js ''<em>'' @ g @ js ''</em>'')
           (replace_all (match_delimited [STAR, STAR]) (\<lambda>g. js ''<strong>'' @ g @ js ''</strong>'')
             s)))"

section \<open>The page and the chat object\<close>

text \<open>
  The transcript is the list of the children of \<^verbatim>\<open>#messages\<close>. An entry is a
  \<^verbatim>\<open>div\<close> with the class \<^verbatim>\<open>message\<close> and one further class, filled through
  \<^verbatim>\<open>innerHTML\<close> (markup) or through \<^verbatim>\<open>textContent\<close> (plain text).
\<close>

datatype sender = user | ai

datatype message_class = user_message | ai_message | error_message

fun sender_class :: "sender \<Rightarrow> message_class" where
  "sender_class user = user_message"
| "sender_class ai = ai_message"

datatype node_content = InnerHTML jsstring | TextContent jsstring

record element =
  classList :: message_class
  content :: node_content

record attachment =
  mimeType :: jsstring
  data :: jsstring
  name :: jsstring

text \<open>The parts handed to \<^verbatim>\<open>sendMessageStream\<close>.\<close>

datatype part = InlineData jsstring jsstring | TextPart jsstring

record chat_session =
  model :: string
  systemInstruction :: string

text \<open>
  What a \<^verbatim>\<open>catch\<close> clause can receive: an instance of \<^verbatim>\<open>Error\<close> with its message,
  or any other value.
\<close>

datatype thrown = ErrorObject jsstring | OtherValue

text \<open>
  What the chat collaborator does with one request: the call rejects, or it returns a
  stream that yields chunks and then is exhausted (\<open>None\<close>) or throws. A chunk is given
  by its \<^verbatim>\<open>text\<close>: a string, or \<^verbatim>\<open>undefined\<close> (\<open>None\<close>) for a chunk that carries no
  text.
\<close>

datatype response = Rejects thrown | Yields "jsstring option list" "thrown option"

text \<open>
  The elements of the page that the script touches, as the page delivers them.
  Scroll offsets and keyboard focus are not part of the model.
\<close>

record dom =
  app_loading :: bool
  promptInput_disabled :: bool
  promptInput_value :: jsstring
  messages :: "element list"
  fileInput_value :: jsstring
  filePreview :: jsstring

text \<open>
  The page together with the fields of \<^verbatim>\<open>AIChat\<close>. \<open>change_listener\<close> says whether
  \<^verbatim>\<open>handleFileChange\<close> is registered on the file input; \<open>endpoint_calls\<close> is the list
  of requests the chat session has received; \<open>undefined_call_message\<close> is the message
  of the \<^verbatim>\<open>TypeError\<close> that the JavaScript engine raises for a method call on
  \<^verbatim>\<open>undefined\<close> (its wording differs between engines).
\<close>

record world = dom +
  chat :: "chat_session option"
  attachedFile :: "attachment option"
  change_listener :: bool
  endpoint_calls :: "part list list"
  undefined_call_message :: jsstring

record env =
  API_KEY :: "jsstring option"
  engine_undefined_call_message :: jsstring

section \<open>Loading indicator, transcript, attachment\<close>

definition showLoading :: "world \<Rightarrow> world" where
  "showLoading s = s\<lparr>app_loading := True, promptInput_disabled := True\<rparr>"

definition hideLoading :: "world \<Rightarrow> world" where
  "hideLoading s = s\<lparr>app_loading := False, promptInput_disabled := False\<rparr>"

text \<open>\<open>renderMessage\<close> returns the new element as its position in the transcript.\<close>

definition renderMessage :: "jsstring \<Rightarrow> sender \<Rightarrow> world \<Rightarrow> nat \<times> world" where
  "renderMessage message sndr s =
     (let htmlContent = markdown_to_html message;
          messageElement = \<lparr>classList = sender_class sndr, content = InnerHTML htmlContent\<rparr>
      in (length (messages s), s\<lparr>messages := messages s @ [messageElement]\<rparr>))"

definition renderError :: "jsstring \<Rightarrow> world \<Rightarrow> world" where
  "renderError message s =
     (let errorElement = \<lparr>classList = error_message, content = TextContent (js ''Error: '' @ message)\<rparr>
      in hideLoading (s\<lparr>messages := messages s @ [errorElement]\<rparr>))"

definition removeFile :: "world \<Rightarrow> world" where
  "removeFile s = s\<lparr>attachedFile := None, fileInput_value := [], filePreview := []\<rparr>"

definition file_preview_markup :: "jsstring \<Rightarrow> jsstring" where
  "file_preview_markup n =
     LF # js ''      <div class=\"file-preview\">'' @
     LF # js ''        <span>'' @ n @ js ''</span>'' @
     LF # js ''        <button class=\"remove-file-btn\" aria-label=\"Remove file\">&times;</button>'' @
     LF # js ''      </div>'' @
     LF # js ''    ''"

definition renderFilePreview :: "world \<Rightarrow> world" where
  "renderFilePreview s =
     (case attachedFile s of
        None \<Rightarrow> s
      | Some f \<Rightarrow> s\<lparr>filePreview := file_preview_markup (name f)\<rparr>)"

text \<open>
  \<^verbatim>\<open>dataUrl.substring(dataUrl.indexOf(',') + 1)\<close>: what follows the first comma, the
  whole string when there is none.
\<close>

definition after_first_comma :: "jsstring \<Rightarrow> jsstring" where
  "after_first_comma dataUrl =
     (if 0x2C \<in> set dataUrl then tl (dropWhile (\<lambda>c. c \<noteq> 0x2C) dataUrl) else dataUrl)"

text \<open>
  The file the user picked (if any) and what the reader delivers for it: the data URL, or
  nothing when the read failed, in which case the callback throws before it assigns.
\<close>

record picked_file =
  file_name :: jsstring
  file_type :: jsstring
  reader_result :: "jsstring option"

definition handleFileChange :: "picked_file option \<Rightarrow> world \<Rightarrow> world" where
  "handleFileChange file s =
     (case file of
        None \<Rightarrow> s
      | Some fl \<Rightarrow>
          (case reader_result fl of
             None \<Rightarrow> s
           | Some dataUrl \<Rightarrow>
               renderFilePreview
                 (s\<lparr>attachedFile :=
                      Some \<lparr>mimeType = file_type fl, data = after_first_comma dataUrl,
                            name = file_name fl\<rparr>\<rparr>)))"

section \<open>Construction\<close>

definition welcome_text :: jsstring where
  "welcome_text = js (''Hello! I'' @ [CHR 0x27] @ ''m your AI Tutor from riteshacademy. Ask me anything about Power BI, SQL, Python, M'' @ ''L, and Advanced Excel. You can also attach a CSV or Excel file!'')"

definition initialize :: "world \<Rightarrow> world" where
  "initialize s = (snd (renderMessage welcome_text ai s))\<lparr>change_listener := True\<rparr>"

text \<open>
  \<^verbatim>\<open>!process.env.API_KEY\<close> holds for a variable that is not set and for the empty
  string.
\<close>

definition api_key_missing :: "env \<Rightarrow> bool" where
  "api_key_missing e \<longleftrightarrow> (case API_KEY e of None \<Rightarrow> True | Some k \<Rightarrow> k = [])"

definition AIChat_constructor :: "env \<Rightarrow> dom \<Rightarrow> world" where
  "AIChat_constructor e page =
     (let this =
        \<lparr>app_loading = app_loading page,
         promptInput_disabled = promptInput_disabled page,
         promptInput_value = promptInput_value page,
         messages = messages page,
         fileInput_value = fileInput_value page,
         filePreview = filePreview page,
         chat = None,
         attachedFile = None,
         change_listener = False,
         endpoint_calls = [],
         undefined_call_message = engine_undefined_call_message e\<rparr>
      in if api_key_missing e
         then renderError (js ''API_KEY environment variable not set.'') this
         else initialize
                (this\<lparr>chat := Some \<lparr>model = ''gemini-2.5-flash'',
                     systemInstruction = ''You are a friendly and expert AI tutor from riteshacademy, specializing in Power BI, SQL, Python for data analysis, Machine Learning, and Advanced Excel. When a user uploads a file (like a CSV or Excel), analyze its structure (columns, sample data) to provide context-aware help, such as generating complex formulas, writing scripts, or explaining concepts relevant to the data. Explain concepts clearly and concisely, as if you are teaching a beginner. Use analogies and simple examples. Format your responses using markdown.''\<rparr>\<rparr>))"

section \<open>Sending\<close>

text \<open>
  Lines 144-165 of \<^verbatim>\<open>sendMessage\<close>, everything before the \<^verbatim>\<open>try\<close> block: \<open>None\<close>
  when the guard returns, otherwise the parts to send and the state in which
  \<^verbatim>\<open>this.chat.sendMessageStream\<close> is invoked. \<open>effective_message\<close> is the value of
  \<^verbatim>\<open>message\<close> after lines 145-147.
\<close>

definition effective_message :: "jsstring \<Rightarrow> world \<Rightarrow> jsstring" where
  "effective_message message0 s =
     (case attachedFile s of
        Some f \<Rightarrow> if trim message0 = [] then js ''Analyze this file: '' @ name f else message0
      | None \<Rightarrow> message0)"

definition sendMessage_begin :: "jsstring \<Rightarrow> world \<Rightarrow> (part list \<times> world) option" where
  "sendMessage_begin message0 s =
     (if trim message0 = [] \<and> attachedFile s = None then None
      else
        let message = effective_message message0 s;
            s1 = showLoading s;
            s2 = snd (renderMessage message user s1);
            s3 = s2\<lparr>promptInput_value := []\<rparr>;
            contents =
              (case attachedFile s3 of
                 Some f \<Rightarrow> [InlineData (mimeType f) (data f)]
               | None \<Rightarrow> []) @ [TextPart message];
            s4 = removeFile s3
        in Some (contents, s4))"

text \<open>Assigning \<^verbatim>\<open>innerHTML\<close> of the element that \<open>renderMessage\<close> returned.\<close>

definition set_innerHTML :: "nat \<Rightarrow> jsstring \<Rightarrow> world \<Rightarrow> world" where
  "set_innerHTML h html s =
     (if h < length (messages s)
      then s\<lparr>messages := (messages s)[h := (messages s ! h)\<lparr>content := InnerHTML html\<rparr>]\<rparr>
      else s)"

text \<open>
  What \<^verbatim>\<open>buffer += chunk.text\<close> appends: the text, or the string that
  \<^verbatim>\<open>undefined\<close> converts to (line 175 has no guard).
\<close>

definition appended_text :: "jsstring option \<Rightarrow> jsstring" where
  "appended_text chunk_text = (case chunk_text of Some t \<Rightarrow> t | None \<Rightarrow> js ''undefined'')"

text \<open>
  The body of the \<^verbatim>\<open>for await\<close> loop (lines 175-189) on the loop's variables
  \<^verbatim>\<open>aiMessageElement\<close> and \<^verbatim>\<open>buffer\<close> and the state.
\<close>

type_synonym loop_state = "nat option \<times> jsstring \<times> world"

definition process_chunk :: "jsstring option \<Rightarrow> loop_state \<Rightarrow> loop_state" where
  "process_chunk chunk_text = (\<lambda>(aiMessageElement, buffer, s).
     let buffer' = buffer @ appended_text chunk_text;
         (aiMessageElement', s1) =
           (case aiMessageElement of
              None \<Rightarrow> (let (h, s') = renderMessage (js ''...'') ai s in (Some h, s'))
            | Some h \<Rightarrow> (Some h, s));
         htmlContent = markdown_to_html buffer';
         s2 = (case aiMessageElement' of
                 Some h \<Rightarrow> set_innerHTML h htmlContent s1
               | None \<Rightarrow> s1)
     in (aiMessageElement', buffer', s2))"

fun for_await :: "jsstring option list \<Rightarrow> loop_state \<Rightarrow> loop_state" where
  "for_await [] l = l"
| "for_await (c # cs) l = for_await cs (process_chunk c l)"

text \<open>The states at the end of each iteration, in order.\<close>

fun stream_states :: "jsstring option list \<Rightarrow> loop_state \<Rightarrow> loop_state list" where
  "stream_states [] l = []"
| "stream_states (c # cs) l = process_chunk c l # stream_states cs (process_chunk c l)"

definition catch_message :: "thrown \<Rightarrow> jsstring" where
  "catch_message e =
     (case e of ErrorObject m \<Rightarrow> m | OtherValue \<Rightarrow> js ''An unknown error occurred.'')"

text \<open>
  Lines 167-195: the \<^verbatim>\<open>try\<close> block with its \<^verbatim>\<open>catch\<close> and \<^verbatim>\<open>finally\<close>. Without a
  chat object the method call itself throws and no request is made.
\<close>

definition sendMessage_try :: "response \<Rightarrow> part list \<Rightarrow> world \<Rightarrow> world" where
  "sendMessage_try resp contents s =
     hideLoading
       (case chat s of
          None \<Rightarrow> renderError (catch_message (ErrorObject (undefined_call_message s))) s
        | Some c \<Rightarrow>
            (let s1 = s\<lparr>endpoint_calls := endpoint_calls s @ [contents]\<rparr>
             in case resp of
                  Rejects e \<Rightarrow> renderError (catch_message e) s1
                | Yields chunks ending \<Rightarrow>
                    (let (aiMessageElement, buffer, s2) = for_await chunks (None, [], s1)
                     in case ending of
                          None \<Rightarrow> s2
                        | Some e \<Rightarrow> renderError (catch_message e) s2)))"

definition sendMessage :: "jsstring \<Rightarrow> response \<Rightarrow> world \<Rightarrow> world" where
  "sendMessage message resp s =
     (case sendMessage_begin message s of
        None \<Rightarrow> s
      | Some (contents, s') \<Rightarrow> sendMessage_try resp contents s')"

section \<open>Events\<close>

text \<open>
  What can happen to the page after construction: the user edits the prompt, the form is
  submitted (with what the chat collaborator will answer), the file input changes (the
  browser sets its value; the listener runs if registered), the remove button of the
  preview is clicked (it exists only while the preview is shown). One send runs to its
  end before the next event.
\<close>

datatype event =
    Input jsstring
  | Submit response
  | FileChange jsstring "picked_file option"
  | RemoveClick

fun step :: "event \<Rightarrow> world \<Rightarrow> world" where
  "step (Input v) s = (if promptInput_disabled s then s else s\<lparr>promptInput_value := v\<rparr>)"
| "step (Submit resp) s = sendMessage (promptInput_value s) resp s"
| "step (FileChange v file) s =
     (let s1 = s\<lparr>fileInput_value := v\<rparr>
      in if change_listener s1 then handleFileChange file s1 else s1)"
| "step RemoveClick s = (if filePreview s = [] then s else removeFile s)"

fun run :: "event list \<Rightarrow> world \<Rightarrow> world" where
  "run [] s = s"
| "run (e # es) s = run es (step e s)"

section \<open>Notions used in the statements\<close>

text \<open>
  The page at the end of each iteration of the loop of one send, in order: what is on
  display between the arrivals of the chunks.
\<close>

definition sendMessage_states :: "jsstring \<Rightarrow> response \<Rightarrow> world \<Rightarrow> world list" where
  "sendMessage_states message resp s =
     (case sendMessage_begin message s of
        None \<Rightarrow> []
      | Some (contents, s') \<Rightarrow>
          (case chat s' of
             None \<Rightarrow> []
           | Some c \<Rightarrow>
               (case resp of
                  Rejects e \<Rightarrow> []
                | Yields chunks ending \<Rightarrow>
                    map (\<lambda>(aiMessageElement, buffer, w). w)
                      (stream_states chunks
                         (None, [], s'\<lparr>endpoint_calls := endpoint_calls s' @ [contents]\<rparr>)))))"

text \<open>What the \<^verbatim>\<open>try\<close> block of a send throws, if anything.\<close>

definition thrown_in :: "response \<Rightarrow> world \<Rightarrow> thrown option" where
  "thrown_in resp s =
     (case chat s of
        None \<Rightarrow> Some (ErrorObject (undefined_call_message s))
      | Some c \<Rightarrow> (case resp of Rejects e \<Rightarrow> Some e | Yields chunks ending \<Rightarrow> ending))"

text \<open>The chunks that the loop of a send receives.\<close>

definition chunks_received :: "response \<Rightarrow> world \<Rightarrow> jsstring option list" where
  "chunks_received resp s =
     (case chat s of
        None \<Rightarrow> []
      | Some c \<Rightarrow> (case resp of Rejects e \<Rightarrow> [] | Yields chunks ending \<Rightarrow> chunks))"

text \<open>Text without any marker of the formatter and without line terminators.\<close>

definition plain :: "jsstring \<Rightarrow> bool" where
  "plain x = list_all (\<lambda>c. c \<noteq> STAR \<and> c \<noteq> BACKTICK \<and> \<not> LineTerminator c) x"

text \<open>
  The four substitutions of the formatter, one for each \<^verbatim>\<open>replace\<close> call of lines
  115-118, in the order of the calls.
\<close>

definition bold_pass :: "jsstring \<Rightarrow> jsstring" where
  "bold_pass s = replace_all (match_delimited [STAR, STAR]) (\<lambda>g. js ''<strong>'' @ g @ js ''</strong>'') s"

definition italic_pass :: "jsstring \<Rightarrow> jsstring" where
  "italic_pass s = replace_all (match_delimited [STAR]) (\<lambda>g. js ''<em>'' @ g @ js ''</em>'') s"

definition code_pass :: "jsstring \<Rightarrow> jsstring" where
  "code_pass s = replace_all match_code (\<lambda>g. js ''<code>'' @ g @ js ''</code>'') s"

definition newline_pass :: "jsstring \<Rightarrow> jsstring" where
  "newline_pass s = replace_all match_newline (\<lambda>g. js ''<br>'') s"

text \<open>
  Marked-up text as a sequence of segments, to state what the formatter makes of a whole
  text with several markers: plain text, \<^verbatim>\<open>**x**\<close>, \<^verbatim>\<open>**a*b*c**\<close>, \<^verbatim>\<open>*x*\<close>,
  \<^verbatim>\<open>`x`\<close> and the three newline sequences. \<open>segment_markdown\<close> is the text as written,
  \<open>segment_html\<close> the markup expected for it.
\<close>

datatype newline = LF_only | CR_only | CR_LF

fun newline_text :: "newline \<Rightarrow> jsstring" where
  "newline_text LF_only = [LF]"
| "newline_text CR_only = [CR]"
| "newline_text CR_LF = [CR, LF]"

datatype segment =
    Plain jsstring
  | Bold jsstring
  | BoldItalic jsstring jsstring jsstring
  | Italic jsstring
  | Code jsstring
  | Break newline

text \<open>The text of a segment after the first \<open>k\<close> substitutions.\<close>

fun staged :: "nat \<Rightarrow> segment \<Rightarrow> jsstring" where
  "staged k (Plain x) = x"
| "staged k (Bold x) =
     (if 1 \<le> k then js ''<strong>'' @ x @ js ''</strong>'' else [STAR, STAR] @ x @ [STAR, STAR])"
| "staged k (BoldItalic a b c) =
     (if 2 \<le> k then js ''<strong>'' @ a @ js ''<em>'' @ b @ js ''</em>'' @ c @ js ''</strong>''
      else if 1 \<le> k then js ''<strong>'' @ a @ [STAR] @ b @ [STAR] @ c @ js ''</strong>''
      else [STAR, STAR] @ a @ [STAR] @ b @ [STAR] @ c @ [STAR, STAR])"
| "staged k (Italic x) =
     (if 2 \<le> k then js ''<em>'' @ x @ js ''</em>'' else [STAR] @ x @ [STAR])"
| "staged k (Code x) =
     (if 3 \<le> k then js ''<code>'' @ x @ js ''</code>'' else [BACKTICK] @ x @ [BACKTICK])"
| "staged k (Break n) = (if 4 \<le> k then js ''<br>'' else newline_text n)"

definition staged_document :: "nat \<Rightarrow> segment list \<Rightarrow> jsstring" where
  "staged_document k ds = concat (map (staged k) ds)"

fun segment_markdown :: "segment \<Rightarrow> jsstring" where
  "segment_markdown (Plain x) = x"
| "segment_markdown (Bold x) = js ''**'' @ x @ js ''**''"
| "segment_markdown (BoldItalic a b c) = js ''**'' @ a @ js ''*'' @ b @ js ''*'' @ c @ js ''**''"
| "segment_markdown (Italic x) = js ''*'' @ x @ js ''*''"
| "segment_markdown (Code x) = js ''`'' @ x @ js ''`''"
| "segment_markdown (Break n) = newline_text n"

fun segment_html :: "segment \<Rightarrow> jsstring" where
  "segment_html (Plain x) = x"
| "segment_html (Bold x) = js ''<strong>'' @ x @ js ''</strong>''"
| "segment_html (BoldItalic a b c) =
     js ''<strong>'' @ a @ js ''<em>'' @ b @ js ''</em>'' @ c @ js ''</strong>''"
| "segment_html (Italic x) = js ''<em>'' @ x @ js ''</em>''"
| "segment_html (Code x) = js ''<code>'' @ x @ js ''</code>''"
| "segment_html (Break n) = js ''<br>''"

definition document_markdown :: "segment list \<Rightarrow> jsstring" where
  "document_markdown ds = concat (map segment_markdown ds)"

definition document_html :: "segment list \<Rightarrow> jsstring" where
  "document_html ds = concat (map segment_html ds)"

text \<open>
  The segments are well formed when their texts are free of markers and line
  terminators, plain, italic and code segments are not empty, an italic segment is not
  directly followed by a segment that starts with a star, and a lone carriage return is
  not directly followed by a line feed.
\<close>

fun starts_with_star :: "segment list \<Rightarrow> bool" where
  "starts_with_star (Bold x # ds) = True"
| "starts_with_star (BoldItalic a b c # ds) = True"
| "starts_with_star (Italic x # ds) = True"
| "starts_with_star ds = False"

fun starts_with_LF :: "segment list \<Rightarrow> bool" where
  "starts_with_LF (Break LF_only # ds) = True"
| "starts_with_LF ds = False"

fun well_formed :: "segment list \<Rightarrow> bool" where
  "well_formed [] = True"
| "well_formed (Plain x # ds) = (plain x \<and> x \<noteq> [] \<and> well_formed ds)"
| "well_formed (Bold x # ds) = (plain x \<and> well_formed ds)"
| "well_formed (BoldItalic a b c # ds) =
     (plain a \<and> plain b \<and> plain c \<and> b \<noteq> [] \<and> c \<noteq> [] \<and> well_formed ds)"
| "well_formed (Italic x # ds) = (plain x \<and> x \<noteq> [] \<and> \<not> starts_with_star ds \<and> well_formed ds)"
| "well_formed (Code x # ds) = (plain x \<and> x \<noteq> [] \<and> well_formed ds)"
| "well_formed (Break n # ds) = ((n = CR_only \<longrightarrow> \<not> starts_with_LF ds) \<and> well_formed ds)"

definition entries_of :: "message_class \<Rightarrow> element list \<Rightarrow> element list" where
  "entries_of k es = filter (\<lambda>e. classList e = k) es"

text \<open>A page with an empty transcript and two environments, for concrete runs.\<close>

definition blank_page :: dom where
  "blank_page =
     \<lparr>app_loading = False, promptInput_disabled = False, promptInput_value = [],
      messages = [], fileInput_value = [], filePreview = []\<rparr>"

definition env_with_key :: env where
  "env_with_key = \<lparr>API_KEY = Some (js ''key''), engine_undefined_call_message = js ''chat is undefined''\<rparr>"

definition env_without_key :: env where
  "env_without_key = \<lparr>API_KEY = None, engine_undefined_call_message = js ''chat is undefined''\<rparr>"

definition sales_csv :: picked_file where
  "sales_csv =
     \<lparr>file_name = js ''sales.csv'', file_type = js ''text/csv'',
      reader_result = Some (js ''data:text/csv;base64,YSxiCjEsMgo='')\<rparr>"

text \<open>
  States for concrete runs: the page after construction with and without a key, with a
  file attached, and with a file chosen whose read failed.
\<close>

definition ready :: world where
  "ready = AIChat_constructor env_with_key blank_page"

definition unconfigured :: world where
  "unconfigured = AIChat_constructor env_without_key blank_page"

definition with_sales_csv :: world where
  "with_sales_csv = step (FileChange (js ''C:/fakepath/sales.csv'') (Some sales_csv)) ready"

definition with_unread_file :: world where
  "with_unread_file =
     step (FileChange (js ''C:/fakepath/sales.csv'') (Some (sales_csv\<lparr>reader_result := None\<rparr>))) ready"

text \<open>The state without a chat session, at rest.\<close>

definition halted :: "world \<Rightarrow> bool" where
  "halted s \<longleftrightarrow>
     chat s = None \<and> attachedFile s = None \<and> \<not> change_listener s \<and> endpoint_calls s = [] \<and>
     \<not> app_loading s \<and> \<not> promptInput_disabled s"

section \<open>The formatter\<close>

lemma lazy_dots_here: "d \<noteq> [] \<Longrightarrow> lazy_dots d (d @ r) = Some ([], r)"
  by (cases d) simp_all

lemma lazy_dots_skip:
  assumes "d \<noteq> []" and "\<forall>c\<in>set x. c \<noteq> hd d \<and> \<not> LineTerminator c"
  shows "lazy_dots d (x @ r) = map_option (\<lambda>(g, r'). (x @ g, r')) (lazy_dots d r)"
  using assms
proof (induction x)
  case Nil
  then show ?case by (cases "lazy_dots d r") auto
next
  case (Cons c x)
  then obtain d0 ds where d: "d = d0 # ds" by (cases d) auto
  with Cons.prems have "c \<noteq> d0" by simp
  with d have np: "\<not> prefix d (c # x @ r)" by simp
  from Cons have ih: "lazy_dots d (x @ r) = map_option (\<lambda>(g, r'). (x @ g, r')) (lazy_dots d r)" by simp
  from Cons.prems have nl: "\<not> LineTerminator c" by simp
  show ?case using np nl ih by (cases "lazy_dots d r") auto
qed

lemma replace_all_skip:
  assumes "\<And>c t. c \<in> set x \<Longrightarrow> m (c # t) = None"
  shows "replace_all m f (x @ r) = x @ replace_all m f r"
  using assms by (induction x) simp_all

lemma replace_all_id:
  assumes "\<And>c t. c \<in> set x \<Longrightarrow> m (c # t) = None" and "m [] = None"
  shows "replace_all m f x = x"
  using replace_all_skip [of x m f "[]"] assms by simp

lemma match_delimited_None: "d \<noteq> [] \<Longrightarrow> c \<noteq> hd d \<Longrightarrow> match_delimited d (c # t) = None"
  by (cases d) (simp_all add: match_delimited_def)

lemma match_delimited_Nil: "d \<noteq> [] \<Longrightarrow> match_delimited d [] = None"
  by (cases d) (simp_all add: match_delimited_def)

lemma match_code_None: "c \<noteq> BACKTICK \<Longrightarrow> match_code (c # t) = None"
  by (simp add: match_code_def)

lemma match_code_Nil: "match_code [] = None"
  by (simp add: match_code_def)

lemma match_newline_None: "\<not> LineTerminator c \<Longrightarrow> match_newline (c # t) = None"
  by (simp add: LineTerminator_def CR_def LF_def)

text \<open>A pass leaves text without its marker as it is.\<close>

lemma delimited_pass_id:
  "d \<noteq> [] \<Longrightarrow> hd d \<notin> set x \<Longrightarrow> replace_all (match_delimited d) f x = x"
  by (rule replace_all_id) (auto intro!: match_delimited_None match_delimited_Nil)

lemma replace_code_id: "BACKTICK \<notin> set x \<Longrightarrow> replace_all match_code f x = x"
  by (rule replace_all_id) (auto intro!: match_code_None match_code_Nil)

lemma replace_newline_id:
  assumes "\<forall>c\<in>set x. \<not> LineTerminator c"
  shows "replace_all match_newline f x = x"
proof (rule replace_all_id)
  fix c t
  assume "c \<in> set x"
  with assms have "\<not> LineTerminator c" by blast
  then show "match_newline (c # t) = None" by (rule match_newline_None)
next
  show "match_newline [] = None" by simp
qed

lemma plain_iff: "plain x \<longleftrightarrow> (\<forall>c\<in>set x. c \<noteq> STAR \<and> c \<noteq> BACKTICK \<and> \<not> LineTerminator c)"
  by (simp add: plain_def list_all_iff)

lemma plain_append [simp]: "plain (x @ y) \<longleftrightarrow> plain x \<and> plain y"
  by (simp add: plain_def)

lemma plain_tags [simp]:
  "plain (js ''<strong>'')" "plain (js ''</strong>'')" "plain (js ''<em>'')" "plain (js ''</em>'')"
  "plain (js ''<code>'')" "plain (js ''</code>'')" "plain (js ''<br>'')"
  by (simp_all add: plain_def js_def STAR_def BACKTICK_def LineTerminator_def)

lemma plain_passes:
  assumes "plain x"
  shows "replace_all (match_delimited [STAR, STAR]) f x = x"
    and "replace_all (match_delimited [STAR]) f x = x"
    and "replace_all match_code f x = x"
    and "replace_all match_newline f x = x"
  using assms by (auto simp: plain_iff intro!: delimited_pass_id replace_code_id replace_newline_id)

lemma js_markers: "js ''**'' = [STAR, STAR]" "js ''*'' = [STAR]" "js ''`'' = [BACKTICK]"
  by (simp_all add: js_def STAR_def BACKTICK_def)

lemma markdown_plain: "plain x \<Longrightarrow> markdown_to_html x = x"
  by (simp add: markdown_to_html_def plain_passes)


lemma lazy_dots_sound: "lazy_dots d t = Some (g, r) \<Longrightarrow> t = g @ d @ r"
proof (induction t arbitrary: g)
  case Nil
  then show ?case by (simp split: if_splits)
next
  case (Cons c cs)
  show ?case
  proof (cases "prefix d (c # cs)")
    case True
    with Cons.prems have "g = []" "r = drop (length d) (c # cs)" by simp_all
    moreover from True have "c # cs = d @ drop (length d) (c # cs)"
      by (metis append_eq_conv_conj prefix_def)
    ultimately show ?thesis by simp
  next
    case False
    with Cons.prems obtain g' where "lazy_dots d cs = Some (g', r)" "g = c # g'"
      by (auto split: if_splits)
    with Cons.IH show ?thesis by simp
  qed
qed

lemma delimited_pass_match:
  assumes "d \<noteq> []" and "lazy_dots d t = Some (g, r)"
  shows "replace_all (match_delimited d) f (d @ t) = f g @ replace_all (match_delimited d) f r"
proof -
  from assms(1) obtain d0 ds where d: "d = d0 # ds" by (cases d) auto
  from assms(2) have t: "t = g @ d @ r" by (rule lazy_dots_sound)
  have m: "match_delimited d (d0 # ds @ t) = Some (g, r)"
    using assms(2) d by (simp add: match_delimited_def)
  have "length r \<le> length (ds @ t)" using t by simp
  with m show ?thesis unfolding d by simp
qed

lemma lazy_dots_star:
  assumes "x \<noteq> []" and "hd x \<noteq> STAR"
  shows "lazy_dots [STAR, STAR] (STAR # x @ r) =
         map_option (\<lambda>(g, r'). (STAR # g, r')) (lazy_dots [STAR, STAR] (x @ r))"
proof -
  from assms obtain x0 xs where "x = x0 # xs" "x0 \<noteq> STAR" by (cases x) auto
  moreover have "\<not> LineTerminator STAR" by (simp add: LineTerminator_def STAR_def)
  ultimately show ?thesis by simp
qed

lemma plain_no_star: "plain x \<Longrightarrow> \<forall>c\<in>set x. c \<noteq> hd [STAR, STAR] \<and> \<not> LineTerminator c"
  by (simp add: plain_iff)

lemma plain_no_star1: "plain x \<Longrightarrow> \<forall>c\<in>set x. c \<noteq> hd [STAR] \<and> \<not> LineTerminator c"
  by (simp add: plain_iff)

lemma plain_hd: "plain x \<Longrightarrow> x \<noteq> [] \<Longrightarrow> hd x \<noteq> STAR"
  by (cases x) (simp_all add: plain_def)

lemma bold_group_plain:
  assumes "plain a"
  shows "lazy_dots [STAR, STAR] (a @ [STAR, STAR] @ r) = Some (a, r)"
  using lazy_dots_skip [OF _ plain_no_star [OF assms], of "[STAR, STAR] @ r"]
    lazy_dots_here [of "[STAR, STAR]" r]
  by simp

lemma italic_group_plain:
  assumes "plain b"
  shows "lazy_dots [STAR] (b @ [STAR] @ r) = Some (b, r)"
  using lazy_dots_skip [OF _ plain_no_star1 [OF assms], of "[STAR] @ r"]
    lazy_dots_here [of "[STAR]" r]
  by simp

lemma bold_group_nested:
  assumes "plain a" "plain b" "plain c" "b \<noteq> []" "c \<noteq> []"
  shows "lazy_dots [STAR, STAR] (a @ [STAR] @ b @ [STAR] @ c @ [STAR, STAR] @ r) =
         Some (a @ [STAR] @ b @ [STAR] @ c, r)"
proof -
  have 1: "lazy_dots [STAR, STAR] (c @ [STAR, STAR] @ r) = Some (c, r)"
    using assms(3) by (rule bold_group_plain)
  have 2: "lazy_dots [STAR, STAR] (STAR # c @ [STAR, STAR] @ r) = Some (STAR # c, r)"
    using lazy_dots_star [OF assms(5) plain_hd [OF assms(3) assms(5)], of "[STAR, STAR] @ r"] 1
    by simp
  have 3: "lazy_dots [STAR, STAR] (b @ STAR # c @ [STAR, STAR] @ r) = Some (b @ STAR # c, r)"
    using lazy_dots_skip [OF _ plain_no_star [OF assms(2)], of "STAR # c @ [STAR, STAR] @ r"] 2
    by simp
  have 4: "lazy_dots [STAR, STAR] (STAR # b @ STAR # c @ [STAR, STAR] @ r) =
           Some (STAR # b @ STAR # c, r)"
    using lazy_dots_star [OF assms(4) plain_hd [OF assms(2) assms(4)], of "STAR # c @ [STAR, STAR] @ r"] 3
    by simp
  have 5: "lazy_dots [STAR, STAR] (a @ STAR # b @ STAR # c @ [STAR, STAR] @ r) =
           Some (a @ STAR # b @ STAR # c, r)"
    using lazy_dots_skip [OF _ plain_no_star [OF assms(1)], of "STAR # b @ STAR # c @ [STAR, STAR] @ r"] 4
    by simp
  then show ?thesis by simp
qed


lemma star_pass_skip:
  assumes "plain p"
  shows "replace_all (match_delimited (STAR # ds)) f (p @ r) = p @ replace_all (match_delimited (STAR # ds)) f r"
proof (rule replace_all_skip)
  fix c t
  assume "c \<in> set p"
  with assms have "c \<noteq> hd (STAR # ds)" by (simp add: plain_iff)
  then show "match_delimited (STAR # ds) (c # t) = None" by (intro match_delimited_None) simp_all
qed

lemma bold_pass_single_star:
  assumes "plain x" "x \<noteq> []"
  shows "replace_all (match_delimited [STAR, STAR]) f (STAR # x @ r) =
         STAR # x @ replace_all (match_delimited [STAR, STAR]) f r"
proof -
  from assms obtain x0 xs where x: "x = x0 # xs" "x0 \<noteq> STAR" by (cases x) (auto simp: plain_def)
  then have "match_delimited [STAR, STAR] (STAR # x @ r) = None"
    by (simp add: match_delimited_def)
  then show ?thesis using star_pass_skip [OF assms(1), of "[STAR]" f r] by simp
qed

lemma replace_code_skip:
  assumes "BACKTICK \<notin> set p"
  shows "replace_all match_code f (p @ r) = p @ replace_all match_code f r"
proof (rule replace_all_skip)
  fix c t
  assume "c \<in> set p"
  with assms have "c \<noteq> BACKTICK" by auto
  then show "match_code (c # t) = None" by (rule match_code_None)
qed

lemma match_code_run:
  assumes "BACKTICK \<notin> set b" "b \<noteq> []"
  shows "match_code (BACKTICK # b @ BACKTICK # q) = Some (b, q)"
proof -
  from assms(1) have "\<forall>x\<in>set b. x \<noteq> BACKTICK" by auto
  then have "takeWhile (\<lambda>x. x \<noteq> BACKTICK) (b @ BACKTICK # q) = b"
    and "dropWhile (\<lambda>x. x \<noteq> BACKTICK) (b @ BACKTICK # q) = BACKTICK # q"
    by (simp_all add: takeWhile_append2 dropWhile_append2)
  with assms(2) show ?thesis by (simp add: match_code_def)
qed

lemma replace_newline_skip:
  assumes "\<forall>c\<in>set p. \<not> LineTerminator c"
  shows "replace_all match_newline f (p @ r) = p @ replace_all match_newline f r"
proof (rule replace_all_skip)
  fix c t
  assume "c \<in> set p"
  with assms have "\<not> LineTerminator c" by blast
  then show "match_newline (c # t) = None" by (rule match_newline_None)
qed

lemma CR_neq_LF: "CR \<noteq> LF"
  by (simp add: CR_def LF_def)

lemma plain_set:
  assumes "plain x"
  shows "STAR \<notin> set x" "BACKTICK \<notin> set x" "\<forall>c\<in>set x. \<not> LineTerminator c"
  using assms by (auto simp: plain_iff)

lemma staged_0: "staged 0 = segment_markdown"
proof
  fix d show "staged 0 d = segment_markdown d" by (cases d) (simp_all add: js_markers)
qed

lemma staged_4: "staged 4 = segment_html"
proof
  fix d show "staged 4 d = segment_html d" by (cases d) simp_all
qed

lemma staged_document_0: "staged_document 0 ds = document_markdown ds"
  by (simp add: staged_document_def document_markdown_def staged_0)

lemma staged_document_4: "staged_document 4 ds = document_html ds"
  by (simp add: staged_document_def document_html_def staged_4)

lemma staged_document_Nil [simp]: "staged_document k [] = []"
  by (simp add: staged_document_def)

lemma staged_document_Cons [simp]: "staged_document k (d # ds) = staged k d @ staged_document k ds"
  by (simp add: staged_document_def)

text \<open>One step of a pass: where the pattern matches, the match is replaced and the scan
  goes on behind it; elsewhere the code unit is copied.\<close>

lemma replace_all_step:
  assumes "\<And>g r. m (c # t) = Some (g, r) \<Longrightarrow> length r \<le> length t"
  shows "replace_all m f (c # t) =
     (case m (c # t) of None \<Rightarrow> c # replace_all m f t | Some (g, r) \<Rightarrow> f g @ replace_all m f r)"
  using assms by (cases "m (c # t)") auto

lemma match_delimited_sound:
  assumes "match_delimited d s = Some (g, r)"
  shows "s = d @ g @ d @ r"
proof -
  from assms have p: "prefix d s" and l: "lazy_dots d (drop (length d) s) = Some (g, r)"
    by (simp_all add: match_delimited_def split: if_splits)
  from l have "drop (length d) s = g @ d @ r" by (rule lazy_dots_sound)
  moreover from p have "s = d @ drop (length d) s" by (metis append_eq_conv_conj prefix_def)
  ultimately show ?thesis by simp
qed

lemma match_delimited_shorter:
  assumes "d \<noteq> []" and "match_delimited d (c # t) = Some (g, r)"
  shows "length r \<le> length t"
proof -
  from match_delimited_sound [OF assms(2)] have "length (c # t) = length (d @ g @ d @ r)" by simp
  with assms(1) show ?thesis by (cases d) simp_all
qed

lemma match_code_shorter:
  assumes "match_code (c # t) = Some (g, r)"
  shows "length r \<le> length t"
proof -
  from assms have "r = tl (dropWhile (\<lambda>x. x \<noteq> BACKTICK) t)"
    by (auto simp: match_code_def Let_def split: if_splits)
  moreover have "length (dropWhile (\<lambda>x. x \<noteq> BACKTICK) t) \<le> length t"
    by (rule length_dropWhile_le)
  ultimately show ?thesis by simp
qed

lemma match_newline_shorter:
  assumes "match_newline (c # t) = Some (g, r)"
  shows "length r \<le> length t"
  using assms by (auto split: if_splits)

lemma bold_pass_step:
  "bold_pass [] = []"
  "bold_pass (c # t) =
     (case match_delimited [STAR, STAR] (c # t) of
        None \<Rightarrow> c # bold_pass t
      | Some (g, r) \<Rightarrow> js ''<strong>'' @ g @ js ''</strong>'' @ bold_pass r)"
proof -
  show "bold_pass [] = []" by (simp add: bold_pass_def match_delimited_Nil)
  have "length r \<le> length t" if "match_delimited [STAR, STAR] (c # t) = Some (g, r)" for g r
    using that by (intro match_delimited_shorter [of "[STAR, STAR]" c t g r]) simp_all
  from replace_all_step [of "match_delimited [STAR, STAR]" c t, OF this]
  show "bold_pass (c # t) =
     (case match_delimited [STAR, STAR] (c # t) of
        None \<Rightarrow> c # bold_pass t
      | Some (g, r) \<Rightarrow> js ''<strong>'' @ g @ js ''</strong>'' @ bold_pass r)"
    unfolding bold_pass_def by (simp split: option.splits)
qed

lemma italic_pass_step:
  "italic_pass [] = []"
  "italic_pass (c # t) =
     (case match_delimited [STAR] (c # t) of
        None \<Rightarrow> c # italic_pass t
      | Some (g, r) \<Rightarrow> js ''<em>'' @ g @ js ''</em>'' @ italic_pass r)"
proof -
  show "italic_pass [] = []" by (simp add: italic_pass_def match_delimited_Nil)
  have "length r \<le> length t" if "match_delimited [STAR] (c # t) = Some (g, r)" for g r
    using that by (intro match_delimited_shorter [of "[STAR]" c t g r]) simp_all
  from replace_all_step [of "match_delimited [STAR]" c t, OF this]
  show "italic_pass (c # t) =
     (case match_delimited [STAR] (c # t) of
        None \<Rightarrow> c # italic_pass t
      | Some (g, r) \<Rightarrow> js ''<em>'' @ g @ js ''</em>'' @ italic_pass r)"
    unfolding italic_pass_def by (simp split: option.splits)
qed

lemma code_pass_step:
  "code_pass [] = []"
  "code_pass (c # t) =
     (case match_code (c # t) of
        None \<Rightarrow> c # code_pass t
      | Some (g, r) \<Rightarrow> js ''<code>'' @ g @ js ''</code>'' @ code_pass r)"
proof -
  show "code_pass [] = []" by (simp add: code_pass_def match_code_Nil)
  have "length r \<le> length t" if "match_code (c # t) = Some (g, r)" for g r
    using that by (rule match_code_shorter)
  from replace_all_step [of match_code c t, OF this]
  show "code_pass (c # t) =
     (case match_code (c # t) of
        None \<Rightarrow> c # code_pass t
      | Some (g, r) \<Rightarrow> js ''<code>'' @ g @ js ''</code>'' @ code_pass r)"
    unfolding code_pass_def by (simp split: option.splits)
qed

lemma newline_pass_step:
  "newline_pass [] = []"
  "newline_pass (c # t) =
     (case match_newline (c # t) of
        None \<Rightarrow> c # newline_pass t
      | Some (g, r) \<Rightarrow> js ''<br>'' @ newline_pass r)"
proof -
  show "newline_pass [] = []" by (simp add: newline_pass_def)
  have "length r \<le> length t" if "match_newline (c # t) = Some (g, r)" for g r
    using that by (rule match_newline_shorter)
  from replace_all_step [of match_newline c t, OF this]
  show "newline_pass (c # t) =
     (case match_newline (c # t) of
        None \<Rightarrow> c # newline_pass t
      | Some (g, r) \<Rightarrow> js ''<br>'' @ newline_pass r)"
    unfolding newline_pass_def by (simp split: option.splits)
qed

lemma markdown_passes:
  "markdown_to_html s = newline_pass (code_pass (italic_pass (bold_pass s)))"
  by (simp add: markdown_to_html_def bold_pass_def italic_pass_def code_pass_def newline_pass_def)


lemma marker_distinct:
  "STAR \<noteq> BACKTICK" "STAR \<noteq> LF" "STAR \<noteq> CR" "BACKTICK \<noteq> LF" "BACKTICK \<noteq> CR"
  "\<not> LineTerminator STAR" "\<not> LineTerminator BACKTICK" "LineTerminator LF" "LineTerminator CR"
  by (simp_all add: STAR_def BACKTICK_def LF_def CR_def LineTerminator_def)

lemma newline_text_set: "set (newline_text n) \<subseteq> {CR, LF}" "newline_text n \<noteq> []"
  by (cases n; simp)+

lemma delimited_pass_skip:
  assumes "d \<noteq> []" and "hd d \<notin> set p"
  shows "replace_all (match_delimited d) f (p @ r) = p @ replace_all (match_delimited d) f r"
proof (rule replace_all_skip)
  fix c t
  assume "c \<in> set p"
  with assms(2) have "c \<noteq> hd d" by auto
  with assms(1) show "match_delimited d (c # t) = None" by (rule match_delimited_None)
qed

lemma bold_pass_skip: "STAR \<notin> set p \<Longrightarrow> bold_pass (p @ r) = p @ bold_pass r"
  unfolding bold_pass_def by (rule delimited_pass_skip) simp_all

lemma italic_pass_skip: "STAR \<notin> set p \<Longrightarrow> italic_pass (p @ r) = p @ italic_pass r"
  unfolding italic_pass_def by (rule delimited_pass_skip) simp_all

lemma code_pass_skip: "BACKTICK \<notin> set p \<Longrightarrow> code_pass (p @ r) = p @ code_pass r"
  unfolding code_pass_def by (rule replace_code_skip)

lemma newline_pass_skip:
  "\<forall>c\<in>set p. \<not> LineTerminator c \<Longrightarrow> newline_pass (p @ r) = p @ newline_pass r"
  unfolding newline_pass_def by (rule replace_newline_skip)

lemma bold_pass_match:
  assumes "lazy_dots [STAR, STAR] t = Some (g, r)"
  shows "bold_pass ([STAR, STAR] @ t) = js ''<strong>'' @ g @ js ''</strong>'' @ bold_pass r"
  unfolding bold_pass_def using delimited_pass_match [OF _ assms] by simp

lemma italic_pass_match:
  assumes "lazy_dots [STAR] t = Some (g, r)"
  shows "italic_pass ([STAR] @ t) = js ''<em>'' @ g @ js ''</em>'' @ italic_pass r"
  unfolding italic_pass_def using delimited_pass_match [OF _ assms] by simp

lemma bold_pass_lone_star:
  assumes "r = [] \<or> hd r \<noteq> STAR"
  shows "bold_pass (STAR # r) = STAR # bold_pass r"
proof -
  from assms have "match_delimited [STAR, STAR] (STAR # r) = None"
    by (cases r) (auto simp: match_delimited_def)
  then show ?thesis by (simp add: bold_pass_step)
qed

lemma plain_set': "plain x \<Longrightarrow> STAR \<notin> set x \<and> BACKTICK \<notin> set x \<and> (\<forall>c\<in>set x. \<not> LineTerminator c)"
  by (auto simp: plain_iff)

lemma source_not_star:
  assumes "well_formed ds" and "\<not> starts_with_star ds"
  shows "staged_document 0 ds = [] \<or> hd (staged_document 0 ds) \<noteq> STAR"
proof (cases ds)
  case Nil
  then show ?thesis by simp
next
  case (Cons d ds')
  show ?thesis
  proof (cases d)
    case (Plain x)
    with assms Cons have "plain x" "x \<noteq> []" by simp_all
    then have "hd x \<noteq> STAR" by (rule plain_hd)
    with \<open>x \<noteq> []\<close> Cons Plain show ?thesis by simp
  next
    case (Code x)
    with Cons show ?thesis by (simp add: marker_distinct(1) [symmetric])
  next
    case (Break n)
    with Cons show ?thesis by (cases n) (simp_all add: marker_distinct(2,3) [symmetric])
  next
    case (Bold x)
    with assms Cons show ?thesis by simp
  next
    case (BoldItalic a b c)
    with assms Cons show ?thesis by simp
  next
    case (Italic x)
    with assms Cons show ?thesis by simp
  qed
qed

lemma bold_pass_document:
  "well_formed ds \<Longrightarrow> bold_pass (staged_document 0 ds) = staged_document 1 ds"
proof (induction ds)
  case Nil
  show ?case by (simp add: bold_pass_step)
next
  case (Cons d ds)
  let ?R = "staged_document 0 ds"
  show ?case
  proof (cases d)
    case (Plain x)
    with Cons show ?thesis by (simp add: bold_pass_skip plain_set')
  next
    case (Bold x)
    with Cons.prems have "plain x" by simp
    from bold_pass_match [OF bold_group_plain [OF this, of ?R]] Cons Bold
    show ?thesis by simp
  next
    case (BoldItalic a b c)
    with Cons.prems have "plain a" "plain b" "plain c" "b \<noteq> []" "c \<noteq> []" by simp_all
    from bold_pass_match [OF bold_group_nested [OF this, of ?R]] Cons BoldItalic
    show ?thesis by simp
  next
    case (Italic x)
    with Cons.prems have x: "plain x" "x \<noteq> []" and w: "well_formed ds" "\<not> starts_with_star ds"
      by simp_all
    have "bold_pass (STAR # x @ STAR # ?R) = STAR # x @ bold_pass (STAR # ?R)"
      unfolding bold_pass_def by (rule bold_pass_single_star [OF x])
    also have "bold_pass (STAR # ?R) = STAR # bold_pass ?R"
      using source_not_star [OF w] by (rule bold_pass_lone_star)
    finally show ?thesis using Cons Italic by simp
  next
    case (Code x)
    with Cons.prems have "STAR \<notin> set ([BACKTICK] @ x @ [BACKTICK])"
      by (simp add: plain_set' marker_distinct)
    from bold_pass_skip [OF this, of ?R] Cons Code show ?thesis by simp
  next
    case (Break n)
    have "STAR \<notin> set (newline_text n)"
      using newline_text_set(1) [of n] marker_distinct(2,3) by auto
    from bold_pass_skip [OF this, of ?R] Cons Break show ?thesis by simp
  qed
qed

lemma italic_pass_document:
  "well_formed ds \<Longrightarrow> italic_pass (staged_document 1 ds) = staged_document 2 ds"
proof (induction ds)
  case Nil
  show ?case by (simp add: italic_pass_step)
next
  case (Cons d ds)
  let ?R = "staged_document 1 ds"
  show ?case
  proof (cases d)
    case (Plain x)
    with Cons show ?thesis by (simp add: italic_pass_skip plain_set')
  next
    case (Bold x)
    with Cons.prems have "plain (js ''<strong>'' @ x @ js ''</strong>'')" by simp
    then have "STAR \<notin> set (js ''<strong>'' @ x @ js ''</strong>'')" by (rule plain_set(1))
    from italic_pass_skip [OF this, of ?R] Cons Bold show ?thesis by simp
  next
    case (BoldItalic a b c)
    with Cons.prems have p: "plain (js ''<strong>'' @ a)" "plain b" "plain (c @ js ''</strong>'')"
      by simp_all
    have "italic_pass ((js ''<strong>'' @ a) @ [STAR] @ b @ [STAR] @ (c @ js ''</strong>'') @ ?R) =
          (js ''<strong>'' @ a) @ italic_pass ([STAR] @ b @ [STAR] @ (c @ js ''</strong>'') @ ?R)"
      by (rule italic_pass_skip) (rule plain_set(1) [OF p(1)])
    also have "italic_pass ([STAR] @ b @ [STAR] @ (c @ js ''</strong>'') @ ?R) =
          js ''<em>'' @ b @ js ''</em>'' @ italic_pass ((c @ js ''</strong>'') @ ?R)"
      by (rule italic_pass_match) (rule italic_group_plain [OF p(2)])
    also have "italic_pass ((c @ js ''</strong>'') @ ?R) = (c @ js ''</strong>'') @ italic_pass ?R"
      by (rule italic_pass_skip) (rule plain_set(1) [OF p(3)])
    finally show ?thesis using Cons BoldItalic by simp
  next
    case (Italic x)
    with Cons.prems have "plain x" by simp
    from italic_pass_match [OF italic_group_plain [OF this, of ?R]] Cons Italic
    show ?thesis by simp
  next
    case (Code x)
    with Cons.prems have "STAR \<notin> set ([BACKTICK] @ x @ [BACKTICK])"
      by (simp add: plain_set' marker_distinct)
    from italic_pass_skip [OF this, of ?R] Cons Code show ?thesis by simp
  next
    case (Break n)
    have "STAR \<notin> set (newline_text n)"
      using newline_text_set(1) [of n] marker_distinct(2,3) by auto
    from italic_pass_skip [OF this, of ?R] Cons Break show ?thesis by simp
  qed
qed


lemma staged_2_no_backtick:
  assumes "well_formed (d # ds)" and "\<And>x. d \<noteq> Code x"
  shows "BACKTICK \<notin> set (staged 2 d)"
proof (cases d)
  case (Plain x)
  with assms show ?thesis by (simp add: plain_set')
next
  case (Bold x)
  with assms have "plain (js ''<strong>'' @ x @ js ''</strong>'')"
    by simp
  then have "BACKTICK \<notin> set (js ''<strong>'' @ x @ js ''</strong>'')"
    by (rule plain_set(2))
  with Bold show ?thesis by simp
next
  case (BoldItalic a b c)
  with assms have "plain (js ''<strong>'' @ a @ js ''<em>'' @ b @ js ''</em>'' @ c @ js ''</strong>'')"
    by simp
  then have "BACKTICK \<notin> set (js ''<strong>'' @ a @ js ''<em>'' @ b @ js ''</em>'' @ c @ js ''</strong>'')"
    by (rule plain_set(2))
  with BoldItalic show ?thesis by simp
next
  case (Italic x)
  with assms have "plain (js ''<em>'' @ x @ js ''</em>'')"
    by simp
  then have "BACKTICK \<notin> set (js ''<em>'' @ x @ js ''</em>'')"
    by (rule plain_set(2))
  with Italic show ?thesis by simp
next
  case (Code x)
  with assms(2) [of x] show ?thesis by simp
next
  case (Break n)
  then show ?thesis
    using newline_text_set(1) [of n] marker_distinct(4,5) by auto
qed

lemma code_pass_match:
  assumes "plain x" and "x \<noteq> []"
  shows "code_pass ([BACKTICK] @ x @ [BACKTICK] @ r) = js ''<code>'' @ x @ js ''</code>'' @ code_pass r"
proof -
  from assms have "match_code (BACKTICK # x @ BACKTICK # r) = Some (x, r)"
    by (intro match_code_run) (simp_all add: plain_set')
  then show ?thesis by (simp add: code_pass_step)
qed

lemma code_pass_document:
  "well_formed ds \<Longrightarrow> code_pass (staged_document 2 ds) = staged_document 3 ds"
proof (induction ds)
  case Nil
  show ?case by (simp add: code_pass_step)
next
  case (Cons d ds)
  let ?R = "staged_document 2 ds"
  from Cons.prems have w: "well_formed ds" by (cases d) simp_all
  show ?case
  proof (cases "\<exists>x. d = Code x")
    case True
    then obtain x where d: "d = Code x" by blast
    with Cons.prems have "plain x" "x \<noteq> []" by simp_all
    from code_pass_match [OF this, of ?R] Cons.IH [OF w] d show ?thesis by simp
  next
    case False
    then have n: "\<And>x. d \<noteq> Code x" by blast
    have s: "staged 3 d = staged 2 d"
    proof (cases d)
      case (Code x)
      with n [of x] show ?thesis by simp
    qed simp_all
    from code_pass_skip [OF staged_2_no_backtick [OF Cons.prems n], of ?R] Cons.IH [OF w] s
    show ?thesis by simp
  qed
qed

lemma staged_3_no_terminator:
  assumes "well_formed (d # ds)" and "\<And>n. d \<noteq> Break n"
  shows "\<forall>c\<in>set (staged 3 d). \<not> LineTerminator c"
proof (cases d)
  case (Plain x)
  with assms have "plain x" by simp
  with Plain show ?thesis by (simp add: plain_set(3))
next
  case (Bold x)
  with assms have "plain (js ''<strong>'' @ x @ js ''</strong>'')"
    by simp
  then have "\<forall>c\<in>set (js ''<strong>'' @ x @ js ''</strong>''). \<not> LineTerminator c"
    by (rule plain_set(3))
  with Bold show ?thesis by simp
next
  case (BoldItalic a b c)
  with assms have "plain (js ''<strong>'' @ a @ js ''<em>'' @ b @ js ''</em>'' @ c @ js ''</strong>'')"
    by simp
  then have "\<forall>c\<in>set (js ''<strong>'' @ a @ js ''<em>'' @ b @ js ''</em>'' @ c @ js ''</strong>''). \<not> LineTerminator c"
    by (rule plain_set(3))
  with BoldItalic show ?thesis by simp
next
  case (Italic x)
  with assms have "plain (js ''<em>'' @ x @ js ''</em>'')"
    by simp
  then have "\<forall>c\<in>set (js ''<em>'' @ x @ js ''</em>''). \<not> LineTerminator c"
    by (rule plain_set(3))
  with Italic show ?thesis by simp
next
  case (Code x)
  with assms have "plain (js ''<code>'' @ x @ js ''</code>'')"
    by simp
  then have "\<forall>c\<in>set (js ''<code>'' @ x @ js ''</code>''). \<not> LineTerminator c"
    by (rule plain_set(3))
  with Code show ?thesis by simp
next
  case (Break n)
  with assms(2) [of n] show ?thesis by simp
qed

lemma staged_3_not_LF:
  assumes "well_formed ds" and "\<not> starts_with_LF ds"
  shows "staged_document 3 ds = [] \<or> hd (staged_document 3 ds) \<noteq> LF"
proof (cases ds)
  case Nil
  then show ?thesis by simp
next
  case (Cons d ds')
  show ?thesis
  proof (cases "\<exists>n. d = Break n")
    case True
    then obtain n where "d = Break n" by blast
    with assms Cons show ?thesis by (cases n) (simp_all add: CR_neq_LF)
  next
    case False
    then have n: "\<And>n. d \<noteq> Break n" by blast
    from staged_3_no_terminator [OF assms(1) [unfolded Cons] n]
    have "staged 3 d = [] \<or> hd (staged 3 d) \<noteq> LF"
      using marker_distinct(8) by (cases "staged 3 d") auto
    moreover have "staged 3 d \<noteq> []"
    proof (cases d)
      case (Break m)
      with n [of m] show ?thesis by simp
    qed (use assms(1) Cons in \<open>simp_all add: js_def\<close>)
    ultimately show ?thesis using Cons by simp
  qed
qed

lemma newline_pass_break:
  assumes "n = CR_only \<longrightarrow> r = [] \<or> hd r \<noteq> LF"
  shows "newline_pass (newline_text n @ r) = js ''<br>'' @ newline_pass r"
proof (cases n)
  case LF_only
  then show ?thesis by (simp add: newline_pass_step CR_neq_LF [symmetric])
next
  case CR_only
  with assms show ?thesis by (auto simp: newline_pass_step CR_neq_LF)
next
  case CR_LF
  then show ?thesis by (simp add: newline_pass_step)
qed

lemma newline_pass_document:
  "well_formed ds \<Longrightarrow> newline_pass (staged_document 3 ds) = staged_document 4 ds"
proof (induction ds)
  case Nil
  show ?case by (simp add: newline_pass_step)
next
  case (Cons d ds)
  let ?R = "staged_document 3 ds"
  from Cons.prems have w: "well_formed ds" by (cases d) simp_all
  show ?case
  proof (cases "\<exists>n. d = Break n")
    case True
    then obtain n where d: "d = Break n" by blast
    have "n = CR_only \<longrightarrow> ?R = [] \<or> hd ?R \<noteq> LF"
      using Cons.prems d staged_3_not_LF [OF w] by simp
    from newline_pass_break [OF this] Cons.IH [OF w] d show ?thesis by simp
  next
    case False
    then have n: "\<And>n. d \<noteq> Break n" by blast
    have s: "staged 4 d = staged 3 d"
    proof (cases d)
      case (Break m)
      with n [of m] show ?thesis by simp
    qed simp_all
    from newline_pass_skip [OF staged_3_no_terminator [OF Cons.prems n], of ?R] Cons.IH [OF w] s
    show ?thesis by simp
  qed
qed

lemma markdown_document:
  assumes "well_formed ds"
  shows "markdown_to_html (document_markdown ds) = document_html ds"
  unfolding markdown_passes staged_document_0 [symmetric] staged_document_4 [symmetric]
  by (simp only: bold_pass_document [OF assms] italic_pass_document [OF assms]
      code_pass_document [OF assms] newline_pass_document [OF assms])

text \<open>A line break between two stars: neither star pass matches across it.\<close>

lemma markdown_stars_across_break:
  assumes "plain a" and "plain b"
  shows "markdown_to_html ([STAR] @ a @ newline_text n @ b @ [STAR]) =
         [STAR] @ a @ js ''<br>'' @ b @ [STAR]"
proof -
  let ?u = "a @ newline_text n @ b"
  have ns: "STAR \<notin> set ?u"
    using assms newline_text_set(1) [of n] marker_distinct(2,3) by (auto simp: plain_iff)
  have nb: "BACKTICK \<notin> set ([STAR] @ ?u @ [STAR])"
    using assms newline_text_set(1) [of n] marker_distinct(1,4,5) by (auto simp: plain_iff)
  have h: "?u @ [STAR] = [] \<or> hd (?u @ [STAR]) \<noteq> STAR"
    using ns newline_text_set(2) [of n] by (cases ?u) auto
  have "bold_pass (STAR # ?u @ [STAR]) = STAR # bold_pass (?u @ [STAR])"
    using h by (rule bold_pass_lone_star)
  also have "bold_pass (?u @ [STAR]) = ?u @ bold_pass [STAR]"
    using ns by (rule bold_pass_skip)
  also have "bold_pass [STAR] = [STAR]"
    using bold_pass_lone_star [of "[]"] by (simp add: bold_pass_step)
  finally have 1: "bold_pass ([STAR] @ ?u @ [STAR]) = [STAR] @ ?u @ [STAR]" by simp
  obtain c cs where nl: "newline_text n = c # cs" "LineTerminator c" "c \<noteq> STAR"
    using marker_distinct by (cases n) auto
  have "lazy_dots [STAR] (a @ (c # cs @ b @ [STAR])) =
        map_option (\<lambda>(g, r'). (a @ g, r')) (lazy_dots [STAR] (c # cs @ b @ [STAR]))"
    using assms(1) by (intro lazy_dots_skip) (simp_all add: plain_iff)
  also have "lazy_dots [STAR] (c # cs @ b @ [STAR]) = None"
    using nl by simp
  finally have "match_delimited [STAR] (STAR # ?u @ [STAR]) = None"
    using nl by (simp add: match_delimited_def)
  then have "italic_pass (STAR # ?u @ [STAR]) = STAR # italic_pass (?u @ [STAR])"
    by (simp add: italic_pass_step)
  also have "italic_pass (?u @ [STAR]) = ?u @ italic_pass [STAR]"
    using ns by (rule italic_pass_skip)
  also have "italic_pass [STAR] = [STAR]"
    by (simp add: italic_pass_step match_delimited_def)
  finally have 2: "italic_pass ([STAR] @ ?u @ [STAR]) = [STAR] @ ?u @ [STAR]" by simp
  have 3: "code_pass ([STAR] @ ?u @ [STAR]) = [STAR] @ ?u @ [STAR]"
    using code_pass_skip [OF nb, of "[]"] by (simp add: code_pass_step)
  have "newline_pass (([STAR] @ a) @ newline_text n @ (b @ [STAR])) =
        ([STAR] @ a) @ newline_pass (newline_text n @ (b @ [STAR]))"
    using assms(1) marker_distinct(6) by (intro newline_pass_skip) (auto simp: plain_iff)
  also have "newline_pass (newline_text n @ (b @ [STAR])) = js ''<br>'' @ newline_pass (b @ [STAR])"
  proof (rule newline_pass_break)
    have "hd (b @ [STAR]) \<noteq> LF"
      using assms(2) marker_distinct(2,8) by (cases b) (auto simp: plain_iff)
    then show "n = CR_only \<longrightarrow> b @ [STAR] = [] \<or> hd (b @ [STAR]) \<noteq> LF" by simp
  qed
  also have "newline_pass (b @ [STAR]) = b @ [STAR]"
    using newline_pass_skip [of "b @ [STAR]" "[]"] assms(2) marker_distinct(6)
    by (auto simp: plain_iff newline_pass_step)
  finally have 4: "newline_pass ([STAR] @ ?u @ [STAR]) = [STAR] @ a @ js ''<br>'' @ b @ [STAR]"
    by simp
  show ?thesis unfolding markdown_passes using 1 2 3 4 by simp
qed


text \<open>
  Claim C3. The formatter is a function of its input alone: for every text it is the
  bold substitution, then the italic one, then inline code, then the line break, each run
  over the whole text, replacing every match from the left and going on behind it. So a
  marker that one substitution has converted is gone before the next one runs: every
  well-formed sequence of segments, with any number of markers, becomes the markup
  expected for it (\<^verbatim>\<open>**a*b*c**\<close> becomes bold markup that contains italic markup), and
  two stars with a newline between them stay as they are, the newline becoming a line
  break only afterwards.
\<close>

theorem formatter_substitutions_in_order:
  "markdown_to_html s = newline_pass (code_pass (italic_pass (bold_pass s))) \<and>
   bold_pass [] = [] \<and>
   bold_pass (c # t) =
     (case match_delimited [STAR, STAR] (c # t) of
        None \<Rightarrow> c # bold_pass t
      | Some (g, r) \<Rightarrow> js ''<strong>'' @ g @ js ''</strong>'' @ bold_pass r) \<and>
   italic_pass [] = [] \<and>
   italic_pass (c # t) =
     (case match_delimited [STAR] (c # t) of
        None \<Rightarrow> c # italic_pass t
      | Some (g, r) \<Rightarrow> js ''<em>'' @ g @ js ''</em>'' @ italic_pass r) \<and>
   code_pass [] = [] \<and>
   code_pass (c # t) =
     (case match_code (c # t) of
        None \<Rightarrow> c # code_pass t
      | Some (g, r) \<Rightarrow> js ''<code>'' @ g @ js ''</code>'' @ code_pass r) \<and>
   newline_pass [] = [] \<and>
   newline_pass (c # t) =
     (case match_newline (c # t) of
        None \<Rightarrow> c # newline_pass t
      | Some (g, r) \<Rightarrow> js ''<br>'' @ newline_pass r) \<and>
   (well_formed ds \<longrightarrow> markdown_to_html (document_markdown ds) = document_html ds) \<and>
   (plain a \<and> plain b \<longrightarrow>
      markdown_to_html (js ''*'' @ a @ newline_text n @ b @ js ''*'') =
        js ''*'' @ a @ js ''<br>'' @ b @ js ''*'')"
  using markdown_passes [of s] bold_pass_step(1) bold_pass_step(2) [of c t]
    italic_pass_step(1) italic_pass_step(2) [of c t] code_pass_step(1) code_pass_step(2) [of c t]
    newline_pass_step(1) newline_pass_step(2) [of c t] markdown_document [of ds]
    markdown_stars_across_break [of a b n]
  by (simp only: js_markers) blast

text \<open>
  Instances: the nested text of the claim, the text of the specification's scenario,
  bold text alone, and stars across a line feed.
\<close>

theorem formatter_substitutions_in_order_witness:
  "well_formed [BoldItalic (js ''a'') (js ''b'') (js ''c'')] \<and>
   markdown_to_html (js ''**a*b*c**'') = js ''<strong>a<em>b</em>c</strong>'' \<and>
   well_formed [Bold (js ''bold''), Plain (js '' and ''), Italic (js ''italic'')] \<and>
   markdown_to_html (js ''**bold** and *italic*'') = js ''<strong>bold</strong> and <em>italic</em>'' \<and>
   well_formed [Bold (js ''bold'')] \<and>
   markdown_to_html (js ''**bold**'') = js ''<strong>bold</strong>'' \<and>
   plain (js ''a'') \<and> plain (js ''b'') \<and>
   markdown_to_html (js ''*a'' @ [LF] @ js ''b*'') = js ''*a<br>b*''"
proof -
  note defs = plain_def js_def STAR_def BACKTICK_def LineTerminator_def
  have w1: "well_formed [BoldItalic (js ''a'') (js ''b'') (js ''c'')]"
    and w2: "well_formed [Bold (js ''bold''), Plain (js '' and ''), Italic (js ''italic'')]"
    and w3: "well_formed [Bold (js ''bold'')]"
    and p: "plain (js ''a'')" "plain (js ''b'')"
    by (simp_all add: defs)
  have m1: "document_markdown [BoldItalic (js ''a'') (js ''b'') (js ''c'')] = js ''**a*b*c**''"
    and h1: "document_html [BoldItalic (js ''a'') (js ''b'') (js ''c'')] =
      js ''<strong>a<em>b</em>c</strong>''"
    and m2: "document_markdown [Bold (js ''bold''), Plain (js '' and ''), Italic (js ''italic'')] =
      js ''**bold** and *italic*''"
    and h2: "document_html [Bold (js ''bold''), Plain (js '' and ''), Italic (js ''italic'')] =
      js ''<strong>bold</strong> and <em>italic</em>''"
    and m3: "document_markdown [Bold (js ''bold'')] = js ''**bold**''"
    and h3: "document_html [Bold (js ''bold'')] = js ''<strong>bold</strong>''"
    and m4: "js ''*'' @ js ''a'' @ newline_text LF_only @ js ''b'' @ js ''*'' = js ''*a'' @ [LF] @ js ''b*''"
    and h4: "js ''*'' @ js ''a'' @ js ''<br>'' @ js ''b'' @ js ''*'' = js ''*a<br>b*''"
    by (simp_all add: document_markdown_def document_html_def js_def)
  from formatter_substitutions_in_order [where ds = "[BoldItalic (js ''a'') (js ''b'') (js ''c'')]"] w1
  have 1: "markdown_to_html (js ''**a*b*c**'') = js ''<strong>a<em>b</em>c</strong>''"
    unfolding m1 h1 by blast
  from formatter_substitutions_in_order
    [where ds = "[Bold (js ''bold''), Plain (js '' and ''), Italic (js ''italic'')]"] w2
  have 2: "markdown_to_html (js ''**bold** and *italic*'') =
      js ''<strong>bold</strong> and <em>italic</em>''"
    unfolding m2 h2 by blast
  from formatter_substitutions_in_order [where ds = "[Bold (js ''bold'')]"] w3
  have 3: "markdown_to_html (js ''**bold**'') = js ''<strong>bold</strong>''"
    unfolding m3 h3 by blast
  from formatter_substitutions_in_order [where a = "js ''a''" and b = "js ''b''" and n = LF_only] p
  have 4: "markdown_to_html (js ''*a'' @ [LF] @ js ''b*'') = js ''*a<br>b*''"
    unfolding m4 h4 by blast
  from w1 1 w2 2 w3 3 p 4 show ?thesis by blast
qed

section \<open>One send\<close>

lemma sendMessage_begin_None:
  "sendMessage_begin message s = None \<longleftrightarrow> trim message = [] \<and> attachedFile s = None"
  by (simp add: sendMessage_begin_def Let_def)

lemma sendMessage_begin_Some:
  assumes "\<not> (trim message = [] \<and> attachedFile s = None)"
  shows "sendMessage_begin message s =
     Some ((case attachedFile s of Some f \<Rightarrow> [InlineData (mimeType f) (data f)] | None \<Rightarrow> []) @
             [TextPart (effective_message message s)],
           s\<lparr>app_loading := True, promptInput_disabled := True,
             messages := messages s @
               [\<lparr>classList = user_message,
                 content = InnerHTML (markdown_to_html (effective_message message s))\<rparr>],
             promptInput_value := [], attachedFile := None, fileInput_value := [],
             filePreview := []\<rparr>)"
  using assms
  by (simp add: sendMessage_begin_def Let_def showLoading_def renderMessage_def removeFile_def)

lemma process_chunk_first:
  "process_chunk c (None, buf, s) =
     (Some (length (messages s)), buf @ appended_text c,
      s\<lparr>messages := messages s @
           [\<lparr>classList = ai_message,
             content = InnerHTML (markdown_to_html (buf @ appended_text c))\<rparr>]\<rparr>)"
  by (simp add: process_chunk_def renderMessage_def set_innerHTML_def Let_def)

lemma process_chunk_next:
  "process_chunk c (Some (length ms), buf, s\<lparr>messages := ms @ [\<lparr>classList = ai_message, content = InnerHTML x\<rparr>]\<rparr>) =
     (Some (length ms), buf @ appended_text c,
      s\<lparr>messages := ms @
           [\<lparr>classList = ai_message, content = InnerHTML (markdown_to_html (buf @ appended_text c))\<rparr>]\<rparr>)"
  by (simp add: process_chunk_def set_innerHTML_def Let_def)

lemma for_await_started:
  "for_await cs (Some (length ms), buf, s\<lparr>messages := ms @ [\<lparr>classList = ai_message, content = InnerHTML x\<rparr>]\<rparr>) =
     (Some (length ms), buf @ concat (map appended_text cs),
      s\<lparr>messages := ms @
           [\<lparr>classList = ai_message,
             content = InnerHTML (if cs = [] then x else markdown_to_html (buf @ concat (map appended_text cs)))\<rparr>]\<rparr>)"
proof (induction cs arbitrary: buf x)
  case Nil
  show ?case by simp
next
  case (Cons c cs)
  show ?case by (simp add: process_chunk_next Cons.IH)
qed

lemma for_await_fresh:
  assumes "cs \<noteq> []"
  shows "for_await cs (None, [], s) =
     (Some (length (messages s)), concat (map appended_text cs),
      s\<lparr>messages := messages s @
           [\<lparr>classList = ai_message, content = InnerHTML (markdown_to_html (concat (map appended_text cs)))\<rparr>]\<rparr>)"
proof -
  from assms obtain c cs' where cs: "cs = c # cs'" by (cases cs) auto
  show ?thesis
    unfolding cs using for_await_started [where cs = cs' and ms = "messages s"
        and buf = "appended_text c" and s = s and x = "markdown_to_html (appended_text c)"]
    by (simp add: process_chunk_first)
qed

lemma length_stream_states: "length (stream_states cs l) = length cs"
  by (induction cs arbitrary: l) simp_all

lemma stream_states_nth:
  "k < length cs \<Longrightarrow> stream_states cs l ! k = for_await (take (Suc k) cs) l"
proof (induction cs arbitrary: l k)
  case Nil
  then show ?case by simp
next
  case (Cons c cs)
  then show ?case by (cases k) simp_all
qed

lemma for_await_last: "for_await cs l = last (l # stream_states cs l)"
  by (induction cs arbitrary: l) simp_all


lemma sendMessage_try_eq:
  "sendMessage_try resp contents s =
     s\<lparr>app_loading := False, promptInput_disabled := False,
       messages := messages s @
         (if chunks_received resp s = [] then []
          else [\<lparr>classList = ai_message,
                 content = InnerHTML (markdown_to_html (concat (map appended_text (chunks_received resp s))))\<rparr>]) @
         (case thrown_in resp s of
            None \<Rightarrow> []
          | Some e \<Rightarrow> [\<lparr>classList = error_message,
                        content = TextContent (js ''Error: '' @ catch_message e)\<rparr>]),
       endpoint_calls := endpoint_calls s @ (case chat s of None \<Rightarrow> [] | Some c \<Rightarrow> [contents])\<rparr>"
proof (cases "chat s")
  case None
  then show ?thesis
    by (simp add: sendMessage_try_def hideLoading_def renderError_def thrown_in_def
        chunks_received_def)
next
  case (Some c)
  show ?thesis
  proof (cases resp)
    case (Rejects e)
    with Some show ?thesis
      by (simp add: sendMessage_try_def hideLoading_def renderError_def thrown_in_def
          chunks_received_def)
  next
    case (Yields chunks ending)
    show ?thesis
    proof (cases "chunks = []")
      case True
      with Some Yields show ?thesis
        by (cases ending)
          (simp_all add: sendMessage_try_def hideLoading_def renderError_def thrown_in_def
            chunks_received_def)
    next
      case False
      with Some Yields show ?thesis
        by (cases ending)
          (simp_all add: sendMessage_try_def hideLoading_def renderError_def thrown_in_def
            chunks_received_def for_await_fresh)
    qed
  qed
qed

lemma sendMessage_guard: "sendMessage_begin message s = None \<Longrightarrow> sendMessage message resp s = s"
  by (simp add: sendMessage_def)

lemma sendMessage_eq:
  assumes "sendMessage_begin message s = Some (contents, s0)"
  shows "sendMessage message resp s = sendMessage_try resp contents s0"
  using assms by (simp add: sendMessage_def)

lemma begin_frame:
  assumes "sendMessage_begin message s = Some (contents, s0)"
  shows "chat s0 = chat s" "undefined_call_message s0 = undefined_call_message s"
    "endpoint_calls s0 = endpoint_calls s" "change_listener s0 = change_listener s"
    "thrown_in resp s0 = thrown_in resp s" "chunks_received resp s0 = chunks_received resp s"
proof -
  from assms have g: "\<not> (trim message = [] \<and> attachedFile s = None)"
    using sendMessage_begin_None [of message s] by auto
  from assms sendMessage_begin_Some [OF g]
  show "chat s0 = chat s" "undefined_call_message s0 = undefined_call_message s"
    "endpoint_calls s0 = endpoint_calls s" "change_listener s0 = change_listener s"
    "thrown_in resp s0 = thrown_in resp s" "chunks_received resp s0 = chunks_received resp s"
    by (auto simp: thrown_in_def chunks_received_def split: option.splits)
qed


lemma sendMessage_closed:
  assumes "trim message \<noteq> [] \<or> attachedFile s \<noteq> None"
  shows "sendMessage message resp s =
     s\<lparr>app_loading := False, promptInput_disabled := False, promptInput_value := [],
       attachedFile := None, fileInput_value := [], filePreview := [],
       messages := messages s @
         [\<lparr>classList = user_message,
           content = InnerHTML (markdown_to_html (effective_message message s))\<rparr>] @
         (if chunks_received resp s = [] then []
          else [\<lparr>classList = ai_message,
                 content = InnerHTML (markdown_to_html (concat (map appended_text (chunks_received resp s))))\<rparr>]) @
         (case thrown_in resp s of
            None \<Rightarrow> []
          | Some e \<Rightarrow> [\<lparr>classList = error_message,
                        content = TextContent (js ''Error: '' @ catch_message e)\<rparr>]),
       endpoint_calls := endpoint_calls s @
         (case chat s of
            None \<Rightarrow> []
          | Some c \<Rightarrow>
              [(case attachedFile s of Some f \<Rightarrow> [InlineData (mimeType f) (data f)] | None \<Rightarrow> []) @
               [TextPart (effective_message message s)]])\<rparr>"
proof -
  from assms have g: "\<not> (trim message = [] \<and> attachedFile s = None)" by blast
  note b = sendMessage_begin_Some [OF g]
  show ?thesis
    unfolding sendMessage_eq [OF b] sendMessage_try_eq begin_frame(5,6) [OF b]
    by simp
qed

lemma entries_of_append [simp]: "entries_of k (xs @ ys) = entries_of k xs @ entries_of k ys"
  by (simp add: entries_of_def)

lemma entries_of_Nil [simp]: "entries_of k [] = []"
  by (simp add: entries_of_def)

lemma entries_of_Cons [simp]:
  "entries_of k (e # es) = (if classList e = k then e # entries_of k es else entries_of k es)"
  by (simp add: entries_of_def)

section \<open>Streaming\<close>

lemma stream_states_eq:
  "stream_states cs l = map (\<lambda>k. for_await (take (Suc k) cs) l) [0..<length cs]"
  by (rule nth_equalityI) (simp_all add: length_stream_states stream_states_nth)

lemma stream_pages:
  "map (\<lambda>(aiMessageElement, buffer, w). messages w) (stream_states cs (None, [], s)) =
   map (\<lambda>k. messages s @
          [\<lparr>classList = ai_message,
            content = InnerHTML (markdown_to_html (concat (map appended_text (take (Suc k) cs))))\<rparr>])
     [0..<length cs]"
proof -
  have "(case for_await (take (Suc k) cs) (None, [], s) of (aiMessageElement, buffer, w) \<Rightarrow> messages w) =
        messages s @
          [\<lparr>classList = ai_message,
            content = InnerHTML (markdown_to_html (concat (map appended_text (take (Suc k) cs))))\<rparr>]"
    if "k < length cs" for k
  proof -
    from that have "take (Suc k) cs \<noteq> []" by (cases cs) auto
    then show ?thesis by (simp add: for_await_fresh)
  qed
  then show ?thesis unfolding stream_states_eq by simp
qed

lemma ready_fields:
  "chat ready \<noteq> None" "attachedFile ready = None" "change_listener ready"
  "messages ready = [\<lparr>classList = ai_message, content = InnerHTML (markdown_to_html welcome_text)\<rparr>]"
  "endpoint_calls ready = []" "fileInput_value ready = []" "filePreview ready = []"
  "\<not> app_loading ready" "\<not> promptInput_disabled ready" "promptInput_value ready = []"
  by (simp_all add: ready_def AIChat_constructor_def api_key_missing_def env_with_key_def
      blank_page_def initialize_def renderMessage_def Let_def js_def)

text \<open>
  What one send displays while it streams. In a send that passes the guard with a chat
  session and a stream of at least one chunk, the transcript after the \<open>k\<close>-th iteration
  of the loop is the transcript at the time of the call followed by one AI entry whose
  content is the formatter applied to what the first \<open>k\<close> chunks appended; up to the call
  no AI entry was added, and when the send has ended exactly one AI entry has been added.
\<close>

lemma streaming_pages:
  assumes "sendMessage_begin message s = Some (contents, s0)" and "chat s \<noteq> None"
    and "chunks \<noteq> []"
  shows "map messages (sendMessage_states message (Yields chunks ending) s) =
           map (\<lambda>k. messages s0 @
                  [\<lparr>classList = ai_message,
                    content = InnerHTML (markdown_to_html (concat (map appended_text (take (Suc k) chunks))))\<rparr>])
             [0..<length chunks] \<and>
         entries_of ai_message (messages s0) = entries_of ai_message (messages s) \<and>
         entries_of ai_message (messages (sendMessage message (Yields chunks ending) s)) =
           entries_of ai_message (messages s) @
             [\<lparr>classList = ai_message,
               content = InnerHTML (markdown_to_html (concat (map appended_text chunks)))\<rparr>]"
proof -
  from assms(1) have g: "trim message \<noteq> [] \<or> attachedFile s \<noteq> None"
    using sendMessage_begin_None [of message s] by auto
  then have g': "\<not> (trim message = [] \<and> attachedFile s = None)" by blast
  from assms(2) obtain c where c: "chat s = Some c" by auto
  with begin_frame(1) [OF assms(1)] have c0: "chat s0 = Some c" by simp
  have 1: "map messages (sendMessage_states message (Yields chunks ending) s) =
           map (\<lambda>k. messages s0 @
                  [\<lparr>classList = ai_message,
                    content = InnerHTML (markdown_to_html (concat (map appended_text (take (Suc k) chunks))))\<rparr>])
             [0..<length chunks]"
    using stream_pages [of chunks "s0\<lparr>endpoint_calls := endpoint_calls s0 @ [contents]\<rparr>"]
    by (simp add: sendMessage_states_def assms(1) c0 case_prod_unfold comp_def)
  have 2: "entries_of ai_message (messages s0) = entries_of ai_message (messages s)"
    using assms(1) unfolding sendMessage_begin_Some [OF g'] by auto
  have 3: "entries_of ai_message (messages (sendMessage message (Yields chunks ending) s)) =
           entries_of ai_message (messages s) @
             [\<lparr>classList = ai_message,
               content = InnerHTML (markdown_to_html (concat (map appended_text chunks)))\<rparr>]"
    unfolding sendMessage_closed [OF g] using c assms(3)
    by (simp add: chunks_received_def thrown_in_def split: option.splits)
  from 1 2 3 show ?thesis by blast
qed

text \<open>When every chunk carries a text, what the chunks appended is their concatenation.\<close>

lemma appended_texts_defined: "concat (map appended_text (map Some ts)) = concat ts"
  by (induction ts) (simp_all add: appended_text_def)

lemma trim_hi: "trim (js ''hi'') \<noteq> []"
  by (simp add: trim_def js_def WhiteSpace_def LineTerminator_def)

lemma markdown_Hel:
  "markdown_to_html (js ''hi'') = js ''hi''"
  "markdown_to_html (js ''Hel'') = js ''Hel''"
  "markdown_to_html (js ''Hel'' @ js ''lo!'') = js ''Hello!''"
  "markdown_to_html (js ''Hel'' @ js ''lo!'' @ js ''undefined'') = js ''Hello!undefined''"
  by (simp_all add: markdown_plain plain_def js_def STAR_def BACKTICK_def LineTerminator_def)

lemma hello_stream:
  "map messages
     (sendMessage_states (js ''hi'') (Yields [Some (js ''Hel''), Some (js ''lo!'')] None) ready) =
     [messages ready @
        [\<lparr>classList = user_message, content = InnerHTML (js ''hi'')\<rparr>,
         \<lparr>classList = ai_message, content = InnerHTML (js ''Hel'')\<rparr>],
      messages ready @
        [\<lparr>classList = user_message, content = InnerHTML (js ''hi'')\<rparr>,
         \<lparr>classList = ai_message, content = InnerHTML (js ''Hello!'')\<rparr>]]"
proof -
  have g: "\<not> (trim (js ''hi'') = [] \<and> attachedFile ready = None)"
    using trim_hi by simp
  have c: "chat ready \<noteq> None" by (rule ready_fields)
  have n: "[Some (js ''Hel''), Some (js ''lo!'')] \<noteq> []" by simp
  have e: "effective_message (js ''hi'') ready = js ''hi''"
    by (simp add: effective_message_def ready_fields)
  from streaming_pages [OF sendMessage_begin_Some [OF g] c n, of None]
  show ?thesis by (simp add: e markdown_Hel appended_text_def)
qed

text \<open>
  Claim C1 holds on the code for streams whose chunks all carry a text (\<open>streaming_pages\<close>
  with \<open>appended_texts_defined\<close>; \<open>hello_stream\<close> is the run on \<^verbatim>\<open>["Hel", "lo!"]\<close>), and
  there is exactly one AI entry in every case. It fails for a chunk without text, which
  the chat collaborator does yield: line 175 appends the string \<^verbatim>\<open>undefined\<close>. The
  stream of \<^verbatim>\<open>Hel\<close>, \<^verbatim>\<open>lo!\<close> and a chunk without text displays \<^verbatim>\<open>Hel\<close>,
  \<^verbatim>\<open>Hello!\<close> and then \<^verbatim>\<open>Hello!undefined\<close>, and the send ends with that entry, where
  the concatenation of the chunk texts is \<^verbatim>\<open>Hello!\<close>.
\<close>

theorem chunk_without_text_appends_undefined:
  "map (\<lambda>w. last (messages w))
     (sendMessage_states (js ''hi'')
        (Yields [Some (js ''Hel''), Some (js ''lo!''), None] None) ready) =
     [\<lparr>classList = ai_message, content = InnerHTML (js ''Hel'')\<rparr>,
      \<lparr>classList = ai_message, content = InnerHTML (js ''Hello!'')\<rparr>,
      \<lparr>classList = ai_message, content = InnerHTML (js ''Hello!undefined'')\<rparr>] \<and>
   messages (sendMessage (js ''hi'') (Yields [Some (js ''Hel''), Some (js ''lo!''), None] None) ready) =
     messages ready @
       [\<lparr>classList = user_message, content = InnerHTML (js ''hi'')\<rparr>,
        \<lparr>classList = ai_message, content = InnerHTML (js ''Hello!undefined'')\<rparr>]"
proof -
  let ?resp = "Yields [Some (js ''Hel''), Some (js ''lo!''), None] None"
  have g: "\<not> (trim (js ''hi'') = [] \<and> attachedFile ready = None)"
    using trim_hi by simp
  then have g': "trim (js ''hi'') \<noteq> [] \<or> attachedFile ready \<noteq> None" by simp
  have c: "chat ready \<noteq> None" by (rule ready_fields)
  have n: "[Some (js ''Hel''), Some (js ''lo!''), None] \<noteq> []" by simp
  have e: "effective_message (js ''hi'') ready = js ''hi''"
    by (simp add: effective_message_def ready_fields)
  from streaming_pages [OF sendMessage_begin_Some [OF g] c n, of None]
  have "map messages (sendMessage_states (js ''hi'') ?resp ready) =
     [messages ready @
        [\<lparr>classList = user_message, content = InnerHTML (js ''hi'')\<rparr>,
         \<lparr>classList = ai_message, content = InnerHTML (js ''Hel'')\<rparr>],
      messages ready @
        [\<lparr>classList = user_message, content = InnerHTML (js ''hi'')\<rparr>,
         \<lparr>classList = ai_message, content = InnerHTML (js ''Hello!'')\<rparr>],
      messages ready @
        [\<lparr>classList = user_message, content = InnerHTML (js ''hi'')\<rparr>,
         \<lparr>classList = ai_message, content = InnerHTML (js ''Hello!undefined'')\<rparr>]]"
    by (simp add: e markdown_Hel appended_text_def)
  then have "map (\<lambda>ms. last ms) (map messages (sendMessage_states (js ''hi'') ?resp ready)) =
     [\<lparr>classList = ai_message, content = InnerHTML (js ''Hel'')\<rparr>,
      \<lparr>classList = ai_message, content = InnerHTML (js ''Hello!'')\<rparr>,
      \<lparr>classList = ai_message, content = InnerHTML (js ''Hello!undefined'')\<rparr>]"
    by simp
  then have 1: "map (\<lambda>w. last (messages w)) (sendMessage_states (js ''hi'') ?resp ready) =
     [\<lparr>classList = ai_message, content = InnerHTML (js ''Hel'')\<rparr>,
      \<lparr>classList = ai_message, content = InnerHTML (js ''Hello!'')\<rparr>,
      \<lparr>classList = ai_message, content = InnerHTML (js ''Hello!undefined'')\<rparr>]"
    by (simp add: comp_def)
  have r: "chunks_received ?resp ready = [Some (js ''Hel''), Some (js ''lo!''), None]"
    using c by (auto simp: chunks_received_def)
  have t: "thrown_in ?resp ready = None"
    using c by (auto simp: thrown_in_def)
  have 2: "messages (sendMessage (js ''hi'') ?resp ready) =
     messages ready @
       [\<lparr>classList = user_message, content = InnerHTML (js ''hi'')\<rparr>,
        \<lparr>classList = ai_message, content = InnerHTML (js ''Hello!undefined'')\<rparr>]"
    unfolding sendMessage_closed [OF g']
    by (simp add: e r t markdown_Hel appended_text_def)
  from 1 2 show ?thesis by blast
qed

text \<open>With a stream that ends normally, the send ends in the last of these states, the
  loading indicator taken off.\<close>

lemma sendMessage_last_state:
  assumes "sendMessage_begin message s = Some (contents, s0)" and "chat s \<noteq> None"
    and "chunks \<noteq> []"
  shows "sendMessage message (Yields chunks None) s =
         hideLoading (last (sendMessage_states message (Yields chunks None) s))"
proof -
  from assms(2) begin_frame(1) [OF assms(1)] obtain c where c: "chat s0 = Some c" by auto
  let ?l = "(None, [], s0\<lparr>endpoint_calls := endpoint_calls s0 @ [contents]\<rparr>)"
  from assms(3) have n: "stream_states chunks ?l \<noteq> []" by (cases chunks) simp_all
  have "for_await chunks ?l = last (stream_states chunks ?l)"
    using n by (simp add: for_await_last)
  then show ?thesis
    using n by (simp add: sendMessage_def sendMessage_try_def sendMessage_states_def assms(1) c
        last_map case_prod_unfold)
qed

section \<open>What events leave unchanged\<close>

lemma sendMessage_frame:
  "chat (sendMessage message resp s) = chat s"
  "change_listener (sendMessage message resp s) = change_listener s"
  "undefined_call_message (sendMessage message resp s) = undefined_call_message s"
  "attachedFile (sendMessage message resp s) =
     (if trim message = [] \<and> attachedFile s = None then attachedFile s else None)"
proof -
  consider "trim message = [] \<and> attachedFile s = None" | "trim message \<noteq> [] \<or> attachedFile s \<noteq> None"
    by blast
  then have "chat (sendMessage message resp s) = chat s \<and>
    change_listener (sendMessage message resp s) = change_listener s \<and>
    undefined_call_message (sendMessage message resp s) = undefined_call_message s \<and>
    attachedFile (sendMessage message resp s) =
     (if trim message = [] \<and> attachedFile s = None then attachedFile s else None)"
  proof cases
    case 1
    then have "sendMessage message resp s = s"
      by (intro sendMessage_guard) (simp add: sendMessage_begin_None)
    with 1 show ?thesis by simp
  next
    case 2
    show ?thesis unfolding sendMessage_closed [OF 2] using 2 by auto
  qed
  then show "chat (sendMessage message resp s) = chat s"
    "change_listener (sendMessage message resp s) = change_listener s"
    "undefined_call_message (sendMessage message resp s) = undefined_call_message s"
    "attachedFile (sendMessage message resp s) =
     (if trim message = [] \<and> attachedFile s = None then attachedFile s else None)"
    by simp_all
qed

lemma handleFileChange_frame:
  "chat (handleFileChange file s) = chat s"
  "change_listener (handleFileChange file s) = change_listener s"
  "undefined_call_message (handleFileChange file s) = undefined_call_message s"
  "endpoint_calls (handleFileChange file s) = endpoint_calls s"
  "messages (handleFileChange file s) = messages s"
  "app_loading (handleFileChange file s) = app_loading s"
  "promptInput_disabled (handleFileChange file s) = promptInput_disabled s"
  by (simp_all add: handleFileChange_def renderFilePreview_def split: option.splits)

lemma handleFileChange_replaces:
  "reader_result fl = Some dataUrl \<Longrightarrow>
   attachedFile (handleFileChange (Some fl) s) =
     Some \<lparr>mimeType = file_type fl, data = after_first_comma dataUrl, name = file_name fl\<rparr>"
  by (simp add: handleFileChange_def renderFilePreview_def)

lemma step_chat [simp]: "chat (step ev s) = chat s"
  by (cases ev) (simp_all add: sendMessage_frame handleFileChange_frame removeFile_def Let_def)

lemma step_change_listener [simp]: "change_listener (step ev s) = change_listener s"
  by (cases ev) (simp_all add: sendMessage_frame handleFileChange_frame removeFile_def Let_def)

lemma step_undefined_call_message [simp]:
  "undefined_call_message (step ev s) = undefined_call_message s"
  by (cases ev) (simp_all add: sendMessage_frame handleFileChange_frame removeFile_def Let_def)

lemma run_frame [simp]:
  "chat (run evs s) = chat s" "change_listener (run evs s) = change_listener s"
  "undefined_call_message (run evs s) = undefined_call_message s"
  by (induction evs arbitrary: s) simp_all

lemma step_no_listener:
  assumes "\<not> change_listener s" and "attachedFile s = None"
  shows "attachedFile (step ev s) = None"
  using assms by (cases ev) (simp_all add: sendMessage_frame removeFile_def Let_def)

lemma run_no_listener:
  assumes "\<not> change_listener s" and "attachedFile s = None"
  shows "attachedFile (run evs s) = None"
  using assms
proof (induction evs arbitrary: s)
  case Nil
  then show ?case by simp
next
  case (Cons ev evs)
  from Cons.prems have "attachedFile (step ev s) = None" by (rule step_no_listener)
  moreover from Cons.prems have "\<not> change_listener (step ev s)" by simp
  ultimately show ?case using Cons.IH by simp
qed

lemma constructor_fields:
  "api_key_missing e \<Longrightarrow> chat (AIChat_constructor e page) = None"
  "api_key_missing e \<Longrightarrow> \<not> change_listener (AIChat_constructor e page)"
  "\<not> api_key_missing e \<Longrightarrow> chat (AIChat_constructor e page) \<noteq> None"
  "attachedFile (AIChat_constructor e page) = None"
  "endpoint_calls (AIChat_constructor e page) = []"
  "undefined_call_message (AIChat_constructor e page) = engine_undefined_call_message e"
  by (simp_all add: AIChat_constructor_def renderError_def hideLoading_def initialize_def
      renderMessage_def Let_def)

lemma attached_needs_chat:
  assumes "attachedFile (run evs (AIChat_constructor e page)) = Some f"
  shows "chat (run evs (AIChat_constructor e page)) \<noteq> None"
proof (cases "api_key_missing e")
  case True
  then have "attachedFile (run evs (AIChat_constructor e page)) = None"
    by (intro run_no_listener) (simp_all add: constructor_fields)
  with assms show ?thesis by simp
next
  case False
  then show ?thesis by (simp add: constructor_fields)
qed

section \<open>The attachment during a send\<close>

lemma with_sales_csv_fields:
  "chat with_sales_csv \<noteq> None"
  "attachedFile with_sales_csv =
     Some \<lparr>mimeType = js ''text/csv'', data = js ''YSxiCjEsMgo='', name = js ''sales.csv''\<rparr>"
  "fileInput_value with_sales_csv = js ''C:/fakepath/sales.csv''"
  "filePreview with_sales_csv = file_preview_markup (js ''sales.csv'')"
  "messages with_sales_csv = messages ready"
  "endpoint_calls with_sales_csv = []"
  by (simp_all add: with_sales_csv_def ready_fields handleFileChange_def renderFilePreview_def
      sales_csv_def after_first_comma_def js_def Let_def)

lemma with_unread_file_fields:
  "chat with_unread_file \<noteq> None"
  "attachedFile with_unread_file = None"
  "fileInput_value with_unread_file = js ''C:/fakepath/sales.csv''"
  by (simp_all add: with_unread_file_def ready_fields handleFileChange_def sales_csv_def Let_def)

text \<open>
  Claim C2. The attachment slot is one nullable field, so it never holds more than one
  file, and a completed read replaces what it held. In every send that passes the guard
  the slot is already empty in the state in which the chat endpoint is invoked (\<open>s0\<close>,
  from which the \<^verbatim>\<open>try\<close> block runs), it is empty when the send has ended, and a send
  that follows without a new attachment carries its text part only.
\<close>

theorem attachment_cleared_before_call:
  assumes "sendMessage_begin message s = Some (contents, s0)"
  shows "attachedFile s0 = None \<and>
         sendMessage_try resp contents s0 = sendMessage message resp s \<and>
         attachedFile (sendMessage message resp s) = None \<and>
         map_option fst (sendMessage_begin message2 (sendMessage message resp s)) =
           (if trim message2 = [] then None else Some [TextPart message2]) \<and>
         card (set_option (attachedFile w)) \<le> 1 \<and>
         attachedFile (handleFileChange (Some (fl\<lparr>reader_result := Some dataUrl\<rparr>)) w) =
           Some \<lparr>mimeType = file_type fl, data = after_first_comma dataUrl, name = file_name fl\<rparr>"
proof -
  from assms have g: "\<not> (trim message = [] \<and> attachedFile s = None)"
    using sendMessage_begin_None [of message s] by auto
  from assms have 1: "attachedFile s0 = None"
    unfolding sendMessage_begin_Some [OF g] by auto
  have 2: "sendMessage_try resp contents s0 = sendMessage message resp s"
    using sendMessage_eq [OF assms] by simp
  have 3: "attachedFile (sendMessage message resp s) = None"
    using g by (simp add: sendMessage_frame)
  have 4: "map_option fst (sendMessage_begin message2 (sendMessage message resp s)) =
           (if trim message2 = [] then None else Some [TextPart message2])"
  proof (cases "trim message2 = []")
    case True
    with 3 have "sendMessage_begin message2 (sendMessage message resp s) = None"
      by (simp add: sendMessage_begin_None)
    with True show ?thesis by simp
  next
    case False
    then have "\<not> (trim message2 = [] \<and> attachedFile (sendMessage message resp s) = None)" by simp
    from sendMessage_begin_Some [OF this] False 3 show ?thesis
      by (simp add: effective_message_def)
  qed
  have 5: "card (set_option (attachedFile w)) \<le> 1"
    by (cases "attachedFile w") simp_all
  have 6: "attachedFile (handleFileChange (Some (fl\<lparr>reader_result := Some dataUrl\<rparr>)) w) =
           Some \<lparr>mimeType = file_type fl, data = after_first_comma dataUrl, name = file_name fl\<rparr>"
    by (simp add: handleFileChange_replaces)
  from 1 2 3 4 5 6 show ?thesis by blast
qed

theorem attachment_cleared_before_call_witness:
  "attachedFile with_sales_csv \<noteq> None \<and>
   (\<exists>s0. sendMessage_begin (js ''hi'') with_sales_csv =
       Some ([InlineData (js ''text/csv'') (js ''YSxiCjEsMgo=''), TextPart (js ''hi'')], s0) \<and>
     attachedFile s0 = None) \<and>
   attachedFile (sendMessage (js ''hi'') (Rejects OtherValue) with_sales_csv) = None \<and>
   map_option fst (sendMessage_begin (js ''hi'')
       (sendMessage (js ''hi'') (Rejects OtherValue) with_sales_csv)) = Some [TextPart (js ''hi'')]"
proof -
  have g: "\<not> (trim (js ''hi'') = [] \<and> attachedFile with_sales_csv = None)"
    using trim_hi by simp
  have e: "effective_message (js ''hi'') with_sales_csv = js ''hi''"
    using trim_hi by (simp add: effective_message_def with_sales_csv_fields)
  note b = sendMessage_begin_Some [OF g]
  from attachment_cleared_before_call [OF b, of "Rejects OtherValue" "js ''hi''"] b trim_hi
  show ?thesis by (simp add: e with_sales_csv_fields)
qed

text \<open>
  Claim C9. Every send that passes the guard has reset the value of the file input and
  emptied the preview container in the state in which the chat endpoint is invoked, and
  they are still empty when the send has ended; nothing is assumed about an attachment,
  so a text-only send resets them as well.
\<close>

theorem send_resets_file_input_and_preview:
  assumes "sendMessage_begin message s = Some (contents, s0)"
  shows "fileInput_value s0 = [] \<and> filePreview s0 = [] \<and>
         sendMessage_try resp contents s0 = sendMessage message resp s \<and>
         fileInput_value (sendMessage message resp s) = [] \<and>
         filePreview (sendMessage message resp s) = []"
proof -
  from assms have g: "\<not> (trim message = [] \<and> attachedFile s = None)"
    using sendMessage_begin_None [of message s] by auto
  then have g': "trim message \<noteq> [] \<or> attachedFile s \<noteq> None" by simp
  from assms have "fileInput_value s0 = []" "filePreview s0 = []"
    unfolding sendMessage_begin_Some [OF g] by auto
  moreover have "sendMessage_try resp contents s0 = sendMessage message resp s"
    using sendMessage_eq [OF assms] by simp
  moreover have "fileInput_value (sendMessage message resp s) = []"
    "filePreview (sendMessage message resp s) = []"
    unfolding sendMessage_closed [OF g'] by simp_all
  ultimately show ?thesis by blast
qed

theorem send_resets_file_input_and_preview_witness:
  "attachedFile with_unread_file = None \<and>
   fileInput_value with_unread_file = js ''C:/fakepath/sales.csv'' \<and>
   (\<exists>s0. sendMessage_begin (js ''hi'') with_unread_file = Some ([TextPart (js ''hi'')], s0) \<and>
     fileInput_value s0 = [] \<and> filePreview s0 = []) \<and>
   fileInput_value (sendMessage (js ''hi'') (Yields [] None) with_unread_file) = []"
proof -
  have g: "\<not> (trim (js ''hi'') = [] \<and> attachedFile with_unread_file = None)"
    using trim_hi by simp
  have e: "effective_message (js ''hi'') with_unread_file = js ''hi''"
    by (simp add: effective_message_def with_unread_file_fields)
  note b = sendMessage_begin_Some [OF g]
  from send_resets_file_input_and_preview [OF b, of "Yields [] None"] b
  show ?thesis by (simp add: e with_unread_file_fields)
qed

text \<open>
  Claim C10. When a send takes an attachment along (its request starts with the
  inline data of the file) and its \<^verbatim>\<open>try\<close> block throws, then after the send the error
  entry is the last entry of the transcript and the attachment slot, the file input and
  the preview are empty: the attachment is not put back.
\<close>

theorem failed_send_does_not_restore_attachment:
  assumes "attachedFile s = Some f" and "thrown_in resp s = Some e"
  shows "map_option fst (sendMessage_begin message s) =
           Some [InlineData (mimeType f) (data f), TextPart (effective_message message s)] \<and>
         last (messages (sendMessage message resp s)) =
           \<lparr>classList = error_message, content = TextContent (js ''Error: '' @ catch_message e)\<rparr> \<and>
         attachedFile (sendMessage message resp s) = None \<and>
         fileInput_value (sendMessage message resp s) = [] \<and>
         filePreview (sendMessage message resp s) = []"
proof -
  from assms(1) have g: "\<not> (trim message = [] \<and> attachedFile s = None)" by simp
  then have g': "trim message \<noteq> [] \<or> attachedFile s \<noteq> None" by simp
  have "map_option fst (sendMessage_begin message s) =
           Some [InlineData (mimeType f) (data f), TextPart (effective_message message s)]"
    unfolding sendMessage_begin_Some [OF g] using assms(1) by simp
  moreover have "last (messages (sendMessage message resp s)) =
           \<lparr>classList = error_message, content = TextContent (js ''Error: '' @ catch_message e)\<rparr>"
    unfolding sendMessage_closed [OF g'] using assms(2) by simp
  moreover have "attachedFile (sendMessage message resp s) = None"
    "fileInput_value (sendMessage message resp s) = []"
    "filePreview (sendMessage message resp s) = []"
    unfolding sendMessage_closed [OF g'] by simp_all
  ultimately show ?thesis by blast
qed

theorem failed_send_does_not_restore_attachment_witness:
  "attachedFile with_sales_csv =
     Some \<lparr>mimeType = js ''text/csv'', data = js ''YSxiCjEsMgo='', name = js ''sales.csv''\<rparr> \<and>
   thrown_in (Rejects (ErrorObject (js ''Failed to fetch''))) with_sales_csv =
     Some (ErrorObject (js ''Failed to fetch'')) \<and>
   last (messages (sendMessage (js ''hi'') (Rejects (ErrorObject (js ''Failed to fetch''))) with_sales_csv)) =
     \<lparr>classList = error_message, content = TextContent (js ''Error: Failed to fetch'')\<rparr> \<and>
   attachedFile (sendMessage (js ''hi'') (Rejects (ErrorObject (js ''Failed to fetch''))) with_sales_csv) = None \<and>
   fileInput_value (sendMessage (js ''hi'') (Rejects (ErrorObject (js ''Failed to fetch''))) with_sales_csv) = [] \<and>
   filePreview (sendMessage (js ''hi'') (Rejects (ErrorObject (js ''Failed to fetch''))) with_sales_csv) = []"
proof -
  have a: "attachedFile with_sales_csv =
     Some \<lparr>mimeType = js ''text/csv'', data = js ''YSxiCjEsMgo='', name = js ''sales.csv''\<rparr>"
    by (rule with_sales_csv_fields)
  have t: "thrown_in (Rejects (ErrorObject (js ''Failed to fetch''))) with_sales_csv =
     Some (ErrorObject (js ''Failed to fetch''))"
    using with_sales_csv_fields(1) by (auto simp: thrown_in_def)
  have j: "js ''Error: '' @ js ''Failed to fetch'' = js ''Error: Failed to fetch''"
    by (simp add: js_def)
  from failed_send_does_not_restore_attachment [OF a t, of "js ''hi''"] a t
  show ?thesis by (simp add: catch_message_def j)
qed

section \<open>How a send ends\<close>

lemma js_append: "js a @ js b = js (a @ b)"
  by (simp add: js_def)

text \<open>
  Claim C8. When the guard is passed, a chat session exists and the stream ends
  without a chunk, the transcript gains the user entry and nothing else, no AI entry is
  created, no iteration of the loop takes place, and the input is enabled again.
\<close>

theorem empty_stream_creates_no_ai_entry:
  assumes "trim message \<noteq> [] \<or> attachedFile s \<noteq> None" and "chat s \<noteq> None"
  shows "messages (sendMessage message (Yields [] None) s) =
           messages s @
             [\<lparr>classList = user_message,
               content = InnerHTML (markdown_to_html (effective_message message s))\<rparr>] \<and>
         entries_of ai_message (messages (sendMessage message (Yields [] None) s)) =
           entries_of ai_message (messages s) \<and>
         sendMessage_states message (Yields [] None) s = [] \<and>
         \<not> app_loading (sendMessage message (Yields [] None) s) \<and>
         \<not> promptInput_disabled (sendMessage message (Yields [] None) s)"
proof -
  have "sendMessage_states message (Yields [] None) s = []"
    by (simp add: sendMessage_states_def split: option.splits)
  then show ?thesis
    using assms(2) unfolding sendMessage_closed [OF assms(1)]
    by (auto simp: chunks_received_def thrown_in_def)
qed

theorem empty_stream_creates_no_ai_entry_witness:
  "trim (js ''hi'') \<noteq> [] \<and> chat ready \<noteq> None \<and>
   messages (sendMessage (js ''hi'') (Yields [] None) ready) =
     messages ready @ [\<lparr>classList = user_message, content = InnerHTML (js ''hi'')\<rparr>] \<and>
   \<not> app_loading (sendMessage (js ''hi'') (Yields [] None) ready) \<and>
   \<not> promptInput_disabled (sendMessage (js ''hi'') (Yields [] None) ready)"
proof -
  have g: "trim (js ''hi'') \<noteq> [] \<or> attachedFile ready \<noteq> None"
    using trim_hi by simp
  have c: "chat ready \<noteq> None" by (rule ready_fields)
  have e: "effective_message (js ''hi'') ready = js ''hi''"
    by (simp add: effective_message_def ready_fields)
  from empty_stream_creates_no_ai_entry [OF g c] trim_hi c
  show ?thesis by (simp add: e markdown_Hel)
qed

text \<open>
  Claim C4. A send that passes the guard ends with the loading state cleared and the
  input enabled, however it ends, and reaches the chat endpoint at most once (once when a
  chat session exists). When nothing is thrown no error entry is added. When the call or
  the iteration throws an \<^verbatim>\<open>Error\<close> with message \<open>m\<close>, exactly one error entry is
  appended, it is the last entry, and its text is \<^verbatim>\<open>Error: \<close> followed by \<open>m\<close>; a
  thrown value that is no \<^verbatim>\<open>Error\<close> gives the one entry with the fixed text.
\<close>

theorem send_error_is_rendered_once_and_input_reenabled:
  assumes "sendMessage_begin message s = Some (contents, s0)"
  shows "\<not> app_loading (sendMessage message resp s) \<and>
         \<not> promptInput_disabled (sendMessage message resp s) \<and>
         endpoint_calls (sendMessage message resp s) =
           endpoint_calls s @ (if chat s = None then [] else [contents]) \<and>
         (thrown_in resp s = None \<longrightarrow>
            entries_of error_message (messages (sendMessage message resp s)) =
              entries_of error_message (messages s)) \<and>
         (\<forall>m. thrown_in resp s = Some (ErrorObject m) \<longrightarrow>
            entries_of error_message (messages (sendMessage message resp s)) =
              entries_of error_message (messages s) @
                [\<lparr>classList = error_message, content = TextContent (js ''Error: '' @ m)\<rparr>] \<and>
            last (messages (sendMessage message resp s)) =
              \<lparr>classList = error_message, content = TextContent (js ''Error: '' @ m)\<rparr>) \<and>
         (thrown_in resp s = Some OtherValue \<longrightarrow>
            entries_of error_message (messages (sendMessage message resp s)) =
              entries_of error_message (messages s) @
                [\<lparr>classList = error_message,
                  content = TextContent (js ''Error: An unknown error occurred.'')\<rparr>] \<and>
            last (messages (sendMessage message resp s)) =
              \<lparr>classList = error_message,
                content = TextContent (js ''Error: An unknown error occurred.'')\<rparr>)"
proof -
  from assms have g: "\<not> (trim message = [] \<and> attachedFile s = None)"
    using sendMessage_begin_None [of message s] by auto
  then have g': "trim message \<noteq> [] \<or> attachedFile s \<noteq> None" by simp
  from assms have c: "contents =
      (case attachedFile s of Some f \<Rightarrow> [InlineData (mimeType f) (data f)] | None \<Rightarrow> []) @
      [TextPart (effective_message message s)]"
    unfolding sendMessage_begin_Some [OF g] by simp
  show ?thesis
    unfolding sendMessage_closed [OF g'] c
    by (auto simp: catch_message_def js_append split: option.splits)
qed

theorem send_error_is_rendered_once_and_input_reenabled_witness:
  "thrown_in (Yields [Some (js ''Hel'')] (Some (ErrorObject (js ''Failed to fetch'')))) ready =
     Some (ErrorObject (js ''Failed to fetch'')) \<and>
   messages (sendMessage (js ''hi'') (Yields [Some (js ''Hel'')] (Some (ErrorObject (js ''Failed to fetch'')))) ready) =
     messages ready @
       [\<lparr>classList = user_message, content = InnerHTML (js ''hi'')\<rparr>,
        \<lparr>classList = ai_message, content = InnerHTML (js ''Hel'')\<rparr>,
        \<lparr>classList = error_message, content = TextContent (js ''Error: Failed to fetch'')\<rparr>] \<and>
   entries_of error_message
     (messages (sendMessage (js ''hi'') (Yields [Some (js ''Hel'')] (Some (ErrorObject (js ''Failed to fetch'')))) ready)) =
     entries_of error_message (messages ready) @
       [\<lparr>classList = error_message, content = TextContent (js ''Error: '' @ js ''Failed to fetch'')\<rparr>] \<and>
   \<not> app_loading (sendMessage (js ''hi'') (Yields [Some (js ''Hel'')] (Some (ErrorObject (js ''Failed to fetch'')))) ready) \<and>
   \<not> promptInput_disabled (sendMessage (js ''hi'') (Yields [Some (js ''Hel'')] (Some (ErrorObject (js ''Failed to fetch'')))) ready) \<and>
   endpoint_calls (sendMessage (js ''hi'') (Yields [Some (js ''Hel'')] (Some (ErrorObject (js ''Failed to fetch'')))) ready) =
     [[TextPart (js ''hi'')]] \<and>
   thrown_in (Yields [] None) ready = None \<and>
   entries_of error_message (messages (sendMessage (js ''hi'') (Yields [] None) ready)) =
     entries_of error_message (messages ready) \<and>
   thrown_in (Rejects OtherValue) ready = Some OtherValue \<and>
   last (messages (sendMessage (js ''hi'') (Rejects OtherValue) ready)) =
     \<lparr>classList = error_message, content = TextContent (js ''Error: An unknown error occurred.'')\<rparr>"
proof -
  have g: "\<not> (trim (js ''hi'') = [] \<and> attachedFile ready = None)"
    using trim_hi by simp
  then have g': "trim (js ''hi'') \<noteq> [] \<or> attachedFile ready \<noteq> None" by simp
  have e: "effective_message (js ''hi'') ready = js ''hi''"
    by (simp add: effective_message_def ready_fields)
  have t: "thrown_in (Yields [Some (js ''Hel'')] (Some (ErrorObject (js ''Failed to fetch'')))) ready =
     Some (ErrorObject (js ''Failed to fetch''))"
    using ready_fields(1) by (auto simp: thrown_in_def)
  have r: "chunks_received (Yields [Some (js ''Hel'')] (Some (ErrorObject (js ''Failed to fetch'')))) ready =
     [Some (js ''Hel'')]"
    using ready_fields(1) by (auto simp: chunks_received_def)
  have m: "messages (sendMessage (js ''hi'') (Yields [Some (js ''Hel'')] (Some (ErrorObject (js ''Failed to fetch'')))) ready) =
     messages ready @
       [\<lparr>classList = user_message, content = InnerHTML (js ''hi'')\<rparr>,
        \<lparr>classList = ai_message, content = InnerHTML (js ''Hel'')\<rparr>,
        \<lparr>classList = error_message, content = TextContent (js ''Error: Failed to fetch'')\<rparr>]"
    unfolding sendMessage_closed [OF g']
    by (simp add: e t r markdown_Hel catch_message_def js_append appended_text_def)
  have t0: "thrown_in (Yields [] None) ready = None"
    using ready_fields(1) by (auto simp: thrown_in_def)
  have t1: "thrown_in (Rejects OtherValue) ready = Some OtherValue"
    using ready_fields(1) by (auto simp: thrown_in_def)
  note b = sendMessage_begin_Some [OF g]
  from send_error_is_rendered_once_and_input_reenabled [OF b, of "Yields [] None"] t0
  have 0: "entries_of error_message (messages (sendMessage (js ''hi'') (Yields [] None) ready)) =
     entries_of error_message (messages ready)"
    by simp
  from send_error_is_rendered_once_and_input_reenabled [OF b, of "Rejects OtherValue"] t1
  have 1: "last (messages (sendMessage (js ''hi'') (Rejects OtherValue) ready)) =
     \<lparr>classList = error_message, content = TextContent (js ''Error: An unknown error occurred.'')\<rparr>"
    by simp
  from send_error_is_rendered_once_and_input_reenabled [OF b,
      of "Yields [Some (js ''Hel'')] (Some (ErrorObject (js ''Failed to fetch'')))"] t m
  have 2: "entries_of error_message
     (messages (sendMessage (js ''hi'') (Yields [Some (js ''Hel'')] (Some (ErrorObject (js ''Failed to fetch'')))) ready)) =
     entries_of error_message (messages ready) @
       [\<lparr>classList = error_message, content = TextContent (js ''Error: '' @ js ''Failed to fetch'')\<rparr>] \<and>
   \<not> app_loading (sendMessage (js ''hi'') (Yields [Some (js ''Hel'')] (Some (ErrorObject (js ''Failed to fetch'')))) ready) \<and>
   \<not> promptInput_disabled (sendMessage (js ''hi'') (Yields [Some (js ''Hel'')] (Some (ErrorObject (js ''Failed to fetch'')))) ready) \<and>
   endpoint_calls (sendMessage (js ''hi'') (Yields [Some (js ''Hel'')] (Some (ErrorObject (js ''Failed to fetch'')))) ready) =
     [[TextPart (js ''hi'')]]"
    by (simp add: e ready_fields)
  from t m 2 t0 0 t1 1 show ?thesis by blast
qed

section \<open>The guard and the synthesized message\<close>

text \<open>
  Claim C5. In every state that the page can reach after construction, a send whose
  text trims to nothing while a file \<open>f\<close> is attached uses the message
  \<^verbatim>\<open>Analyze this file: \<close> followed by the name of \<open>f\<close>: the user entry is rendered from
  that message, and the request that reaches the chat endpoint consists of the inline
  data of \<open>f\<close> and that message as its text part.
\<close>

theorem file_only_send_synthesizes_message:
  assumes "trim text = []" and "attachedFile (run evs (AIChat_constructor e page)) = Some f"
  shows "effective_message text (run evs (AIChat_constructor e page)) =
           js ''Analyze this file: '' @ name f \<and>
         (\<exists>s0. sendMessage_begin text (run evs (AIChat_constructor e page)) =
             Some ([InlineData (mimeType f) (data f), TextPart (js ''Analyze this file: '' @ name f)], s0) \<and>
           messages s0 =
             messages (run evs (AIChat_constructor e page)) @
               [\<lparr>classList = user_message,
                 content = InnerHTML (markdown_to_html (js ''Analyze this file: '' @ name f))\<rparr>]) \<and>
         endpoint_calls (sendMessage text resp (run evs (AIChat_constructor e page))) =
           endpoint_calls (run evs (AIChat_constructor e page)) @
             [[InlineData (mimeType f) (data f), TextPart (js ''Analyze this file: '' @ name f)]]"
proof -
  let ?s = "run evs (AIChat_constructor e page)"
  from assms(2) have g: "\<not> (trim text = [] \<and> attachedFile ?s = None)" by simp
  then have g': "trim text \<noteq> [] \<or> attachedFile ?s \<noteq> None" by simp
  have c: "chat ?s \<noteq> None" using assms(2) by (rule attached_needs_chat)
  have m: "effective_message text ?s = js ''Analyze this file: '' @ name f"
    using assms by (simp add: effective_message_def)
  have "\<exists>s0. sendMessage_begin text ?s =
             Some ([InlineData (mimeType f) (data f), TextPart (js ''Analyze this file: '' @ name f)], s0) \<and>
           messages s0 = messages ?s @
               [\<lparr>classList = user_message,
                 content = InnerHTML (markdown_to_html (js ''Analyze this file: '' @ name f))\<rparr>]"
    unfolding sendMessage_begin_Some [OF g] m using assms(2) by simp
  moreover have "endpoint_calls (sendMessage text resp ?s) =
           endpoint_calls ?s @
             [[InlineData (mimeType f) (data f), TextPart (js ''Analyze this file: '' @ name f)]]"
    unfolding sendMessage_closed [OF g'] m using assms(2) c by auto
  ultimately show ?thesis using m by blast
qed

lemma trim_spaces: "trim (js ''  '') = []"
  by (simp add: trim_def js_def WhiteSpace_def)

lemma run_file_change:
  "run [FileChange (js ''C:/fakepath/sales.csv'') (Some sales_csv)] (AIChat_constructor env_with_key blank_page) =
   with_sales_csv"
  by (simp add: with_sales_csv_def ready_def)

theorem file_only_send_synthesizes_message_witness:
  "trim (js ''  '') = [] \<and>
   attachedFile (run [FileChange (js ''C:/fakepath/sales.csv'') (Some sales_csv)]
       (AIChat_constructor env_with_key blank_page)) =
     Some \<lparr>mimeType = js ''text/csv'', data = js ''YSxiCjEsMgo='', name = js ''sales.csv''\<rparr> \<and>
   endpoint_calls (sendMessage (js ''  '') (Yields [] None)
       (run [FileChange (js ''C:/fakepath/sales.csv'') (Some sales_csv)]
         (AIChat_constructor env_with_key blank_page))) =
     [[InlineData (js ''text/csv'') (js ''YSxiCjEsMgo=''),
       TextPart (js ''Analyze this file: sales.csv'')]]"
proof -
  have a: "attachedFile (run [FileChange (js ''C:/fakepath/sales.csv'') (Some sales_csv)]
       (AIChat_constructor env_with_key blank_page)) =
     Some \<lparr>mimeType = js ''text/csv'', data = js ''YSxiCjEsMgo='', name = js ''sales.csv''\<rparr>"
    unfolding run_file_change by (rule with_sales_csv_fields)
  from file_only_send_synthesizes_message [OF trim_spaces a, of "Yields [] None"] a trim_spaces
  show ?thesis unfolding run_file_change by (simp add: with_sales_csv_fields js_append)
qed

text \<open>
  Claim C6, as stated, fails: a single space is a non-empty text, yet submitting it
  without an attachment changes nothing.
\<close>

theorem blank_text_submit_counterexample:
  "js '' '' \<noteq> [] \<and> attachedFile ready = None \<and>
   sendMessage (js '' '') (Yields [Some (js ''ok'')] None) ready = ready \<and>
   promptInput_value (step (Input (js '' '')) ready) = js '' '' \<and>
   step (Submit (Yields [Some (js ''ok'')] None)) (step (Input (js '' '')) ready) =
     step (Input (js '' '')) ready"
proof -
  have t: "trim (js '' '') = []"
    by (simp add: trim_def js_def WhiteSpace_def)
  have n: "js '' '' \<noteq> []" by (simp add: js_def)
  have 1: "sendMessage (js '' '') (Yields [Some (js ''ok'')] None) ready = ready"
    by (rule sendMessage_guard) (simp add: sendMessage_begin_None t ready_fields)
  have 2: "promptInput_value (step (Input (js '' '')) ready) = js '' ''"
    by (simp add: ready_fields)
  have 3: "step (Submit (Yields [Some (js ''ok'')] None)) (step (Input (js '' '')) ready) =
     step (Input (js '' '')) ready"
    unfolding step.simps(2) 2
    by (rule sendMessage_guard) (simp add: sendMessage_begin_None t ready_fields)
  from n 1 2 3 show ?thesis by (simp add: ready_fields)
qed

text \<open>
  Claim C6, amended. A send passes the guard exactly when the text does not trim to the
  empty string or an attachment is pending. In the state in which the chat endpoint is then
  invoked the loading indicator is on, the input is disabled, the input field is cleared,
  the user entry has been appended and no request has been made yet. A send whose text
  trims to the empty string, with no attachment pending, leaves the state as it is. The
  submit listener hands the value of the input field to the send.
\<close>

theorem submit_sends_iff_not_blank:
  "(sendMessage_begin message s \<noteq> None \<longleftrightarrow> trim message \<noteq> [] \<or> attachedFile s \<noteq> None) \<and>
   (\<forall>contents s0. sendMessage_begin message s = Some (contents, s0) \<longrightarrow>
      app_loading s0 \<and> promptInput_disabled s0 \<and> promptInput_value s0 = [] \<and>
      messages s0 =
        messages s @
          [\<lparr>classList = user_message,
            content = InnerHTML (markdown_to_html (effective_message message s))\<rparr>] \<and>
      endpoint_calls s0 = endpoint_calls s \<and>
      sendMessage_try resp contents s0 = sendMessage message resp s) \<and>
   (trim message = [] \<and> attachedFile s = None \<longrightarrow> sendMessage message resp s = s) \<and>
   step (Submit resp) s = sendMessage (promptInput_value s) resp s"
proof -
  have 1: "sendMessage_begin message s \<noteq> None \<longleftrightarrow> trim message \<noteq> [] \<or> attachedFile s \<noteq> None"
    using sendMessage_begin_None [of message s] by auto
  have 2: "app_loading s0 \<and> promptInput_disabled s0 \<and> promptInput_value s0 = [] \<and>
      messages s0 =
        messages s @
          [\<lparr>classList = user_message,
            content = InnerHTML (markdown_to_html (effective_message message s))\<rparr>] \<and>
      endpoint_calls s0 = endpoint_calls s \<and>
      sendMessage_try resp contents s0 = sendMessage message resp s"
    if b: "sendMessage_begin message s = Some (contents, s0)" for contents s0
  proof -
    from b 1 have g: "\<not> (trim message = [] \<and> attachedFile s = None)" by auto
    from b have "s0 = s\<lparr>app_loading := True, promptInput_disabled := True,
             messages := messages s @
               [\<lparr>classList = user_message,
                 content = InnerHTML (markdown_to_html (effective_message message s))\<rparr>],
             promptInput_value := [], attachedFile := None, fileInput_value := [],
             filePreview := []\<rparr>"
      unfolding sendMessage_begin_Some [OF g] by simp
    then show ?thesis using sendMessage_eq [OF b, of resp] by simp
  qed
  have 3: "trim message = [] \<and> attachedFile s = None \<longrightarrow> sendMessage message resp s = s"
    using sendMessage_guard [of message s resp] by (simp add: sendMessage_begin_None)
  from 1 2 3 show ?thesis by simp
qed

theorem submit_sends_iff_not_blank_witness:
  "sendMessage_begin (js ''hi'') ready \<noteq> None \<and>
   (\<exists>s0. sendMessage_begin (js ''hi'') ready = Some ([TextPart (js ''hi'')], s0) \<and>
      app_loading s0 \<and> promptInput_disabled s0 \<and> promptInput_value s0 = [] \<and>
      messages s0 = messages ready @ [\<lparr>classList = user_message, content = InnerHTML (js ''hi'')\<rparr>]) \<and>
   trim (js ''  '') = [] \<and> attachedFile ready = None \<and>
   sendMessage (js ''  '') (Yields [Some (js ''ok'')] None) ready = ready"
proof -
  have g: "\<not> (trim (js ''hi'') = [] \<and> attachedFile ready = None)"
    using trim_hi by simp
  have e: "effective_message (js ''hi'') ready = js ''hi''"
    by (simp add: effective_message_def ready_fields)
  note b = sendMessage_begin_Some [OF g]
  note t1 = submit_sends_iff_not_blank [of "js ''hi''" ready "Yields [] None"]
  note t2 = submit_sends_iff_not_blank [of "js ''  ''" ready "Yields [Some (js ''ok'')] None"]
  from t1 have 1: "sendMessage_begin (js ''hi'') ready \<noteq> None" using trim_hi by simp
  from t1 b have 2: "\<exists>s0. sendMessage_begin (js ''hi'') ready = Some ([TextPart (js ''hi'')], s0) \<and>
      app_loading s0 \<and> promptInput_disabled s0 \<and> promptInput_value s0 = [] \<and>
      messages s0 = messages ready @ [\<lparr>classList = user_message, content = InnerHTML (js ''hi'')\<rparr>]"
    by (simp add: e markdown_Hel ready_fields)
  from t2 have 3: "sendMessage (js ''  '') (Yields [Some (js ''ok'')] None) ready = ready"
    by (simp add: trim_spaces ready_fields)
  from 1 2 3 show ?thesis by (simp add: trim_spaces ready_fields)
qed

section \<open>Construction without a key\<close>

lemma sendMessage_without_chat:
  assumes "chat s = None" and "trim message \<noteq> [] \<or> attachedFile s \<noteq> None"
  shows "sendMessage message resp s =
     s\<lparr>app_loading := False, promptInput_disabled := False, promptInput_value := [],
       attachedFile := None, fileInput_value := [], filePreview := [],
       messages := messages s @
         [\<lparr>classList = user_message,
           content = InnerHTML (markdown_to_html (effective_message message s))\<rparr>,
          \<lparr>classList = error_message,
           content = TextContent (js ''Error: '' @ undefined_call_message s)\<rparr>]\<rparr>"
  unfolding sendMessage_closed [OF assms(2)] using assms(1)
  by (simp add: chunks_received_def thrown_in_def catch_message_def)

lemma step_halted:
  assumes "halted s"
  shows "halted (step ev s) \<and>
         entries_of ai_message (messages (step ev s)) = entries_of ai_message (messages s)"
proof (cases ev)
  case (Input v)
  with assms show ?thesis by (simp add: halted_def)
next
  case (Submit resp)
  show ?thesis
  proof (cases "trim (promptInput_value s) = []")
    case True
    with assms have "sendMessage (promptInput_value s) resp s = s"
      by (intro sendMessage_guard) (simp add: sendMessage_begin_None halted_def)
    with assms Submit show ?thesis by simp
  next
    case False
    then have g: "trim (promptInput_value s) \<noteq> [] \<or> attachedFile s \<noteq> None" by simp
    from assms have c: "chat s = None" by (simp add: halted_def)
    show ?thesis
      unfolding Submit step.simps sendMessage_without_chat [OF c g]
      using assms by (simp add: halted_def)
  qed
next
  case (FileChange v fl)
  with assms show ?thesis by (simp add: halted_def Let_def)
next
  case RemoveClick
  with assms show ?thesis by (simp add: halted_def removeFile_def)
qed

lemma run_halted:
  assumes "halted s"
  shows "halted (run evs s) \<and>
         entries_of ai_message (messages (run evs s)) = entries_of ai_message (messages s)"
  using assms
proof (induction evs arbitrary: s)
  case Nil
  then show ?case by simp
next
  case (Cons ev evs)
  from step_halted [OF Cons.prems, of ev] Cons.IH [of "step ev s"]
  show ?case by simp
qed

lemma constructor_without_key:
  assumes "api_key_missing e"
  shows "AIChat_constructor e page =
     \<lparr>app_loading = False, promptInput_disabled = False,
      promptInput_value = promptInput_value page,
      messages = messages page @
        [\<lparr>classList = error_message,
          content = TextContent (js ''Error: API_KEY environment variable not set.'')\<rparr>],
      fileInput_value = fileInput_value page, filePreview = filePreview page,
      chat = None, attachedFile = None, change_listener = False, endpoint_calls = [],
      undefined_call_message = engine_undefined_call_message e\<rparr>"
  using assms
  by (simp add: AIChat_constructor_def renderError_def hideLoading_def js_append)

text \<open>
  Claim C7, amended. When the API key is missing at construction, the configuration
  error is appended to the transcript, no chat session is created and the file-change
  listener is not registered, so no welcome message appears; the input stays enabled. After
  any sequence of events there is still no chat session, no attachment, no request to the
  chat endpoint and no new AI entry. A later send with text that does not trim to the
  empty string appends the user entry and one error entry that carries the message of the
  engine's \<^verbatim>\<open>TypeError\<close>.
\<close>

theorem missing_key_leaves_no_session:
  assumes "api_key_missing e"
  shows "messages (AIChat_constructor e page) =
           messages page @
             [\<lparr>classList = error_message,
               content = TextContent (js ''Error: API_KEY environment variable not set.'')\<rparr>] \<and>
         chat (AIChat_constructor e page) = None \<and>
         \<not> change_listener (AIChat_constructor e page) \<and>
         \<not> promptInput_disabled (AIChat_constructor e page) \<and>
         chat (run evs (AIChat_constructor e page)) = None \<and>
         attachedFile (run evs (AIChat_constructor e page)) = None \<and>
         endpoint_calls (run evs (AIChat_constructor e page)) = [] \<and>
         entries_of ai_message (messages (run evs (AIChat_constructor e page))) =
           entries_of ai_message (messages page) \<and>
         (trim text \<noteq> [] \<longrightarrow>
            messages (sendMessage text resp (run evs (AIChat_constructor e page))) =
              messages (run evs (AIChat_constructor e page)) @
                [\<lparr>classList = user_message, content = InnerHTML (markdown_to_html text)\<rparr>,
                 \<lparr>classList = error_message,
                  content = TextContent (js ''Error: '' @ engine_undefined_call_message e)\<rparr>])"
proof -
  let ?s = "AIChat_constructor e page"
  note k = constructor_without_key [OF assms, of page]
  have h: "halted ?s" unfolding k by (simp add: halted_def)
  note r = run_halted [OF h, of evs]
  have 1: "messages ?s =
           messages page @
             [\<lparr>classList = error_message,
               content = TextContent (js ''Error: API_KEY environment variable not set.'')\<rparr>]"
    "chat ?s = None" "\<not> change_listener ?s" "\<not> promptInput_disabled ?s"
    unfolding k by simp_all
  have 2: "chat (run evs ?s) = None" "attachedFile (run evs ?s) = None"
    "endpoint_calls (run evs ?s) = []"
    using r by (simp_all add: halted_def)
  have 3: "entries_of ai_message (messages (run evs ?s)) = entries_of ai_message (messages page)"
    using r 1(1) by simp
  have 4: "messages (sendMessage text resp (run evs ?s)) =
              messages (run evs ?s) @
                [\<lparr>classList = user_message, content = InnerHTML (markdown_to_html text)\<rparr>,
                 \<lparr>classList = error_message,
                  content = TextContent (js ''Error: '' @ engine_undefined_call_message e)\<rparr>]"
    if "trim text \<noteq> []"
  proof -
    from that have g: "trim text \<noteq> [] \<or> attachedFile (run evs ?s) \<noteq> None" by simp
    have u: "undefined_call_message ?s = engine_undefined_call_message e"
      by (rule constructor_fields)
    have m: "effective_message text (run evs ?s) = text"
      using 2(2) by (simp add: effective_message_def)
    show ?thesis unfolding sendMessage_without_chat [OF 2(1) g] by (simp add: u m)
  qed
  from 1 2 3 4 show ?thesis by simp
qed

lemma unconfigured_eq:
  "unconfigured =
     \<lparr>app_loading = False, promptInput_disabled = False, promptInput_value = [],
      messages =
        [\<lparr>classList = error_message,
          content = TextContent (js ''Error: API_KEY environment variable not set.'')\<rparr>],
      fileInput_value = [], filePreview = [],
      chat = None, attachedFile = None, change_listener = False, endpoint_calls = [],
      undefined_call_message = js ''chat is undefined''\<rparr>"
proof -
  have "api_key_missing env_without_key"
    by (simp add: api_key_missing_def env_without_key_def)
  from constructor_without_key [OF this, of blank_page] show ?thesis
    by (simp add: unconfigured_def blank_page_def env_without_key_def)
qed

theorem missing_key_leaves_no_session_witness:
  "api_key_missing env_without_key \<and> trim (js ''hi'') \<noteq> [] \<and>
   messages (AIChat_constructor env_without_key blank_page) =
     [\<lparr>classList = error_message,
       content = TextContent (js ''Error: API_KEY environment variable not set.'')\<rparr>] \<and>
   endpoint_calls
     (run [FileChange (js ''C:/fakepath/sales.csv'') (Some sales_csv), Input (js ''hi''),
           Submit (Yields [Some (js ''ok'')] None)]
        (AIChat_constructor env_without_key blank_page)) = [] \<and>
   attachedFile
     (run [FileChange (js ''C:/fakepath/sales.csv'') (Some sales_csv), Input (js ''hi''),
           Submit (Yields [Some (js ''ok'')] None)]
        (AIChat_constructor env_without_key blank_page)) = None \<and>
   messages (sendMessage (js ''hi'') (Yields [Some (js ''ok'')] None)
       (run [] (AIChat_constructor env_without_key blank_page))) =
     [\<lparr>classList = error_message,
       content = TextContent (js ''Error: API_KEY environment variable not set.'')\<rparr>,
      \<lparr>classList = user_message, content = InnerHTML (js ''hi'')\<rparr>,
      \<lparr>classList = error_message, content = TextContent (js ''Error: chat is undefined'')\<rparr>]"
proof -
  have k: "api_key_missing env_without_key"
    by (simp add: api_key_missing_def env_without_key_def)
  note t1 = missing_key_leaves_no_session [OF k, of blank_page
      "[FileChange (js ''C:/fakepath/sales.csv'') (Some sales_csv), Input (js ''hi''),
           Submit (Yields [Some (js ''ok'')] None)]" "js ''hi''" "Yields [Some (js ''ok'')] None"]
  note t2 = missing_key_leaves_no_session [OF k, of blank_page "[]" "js ''hi''" "Yields [Some (js ''ok'')] None"]
  have e: "engine_undefined_call_message env_without_key = js ''chat is undefined''"
    by (simp add: env_without_key_def)
  have p: "messages blank_page = []" by (simp add: blank_page_def)
  from t1 have 1: "endpoint_calls
     (run [FileChange (js ''C:/fakepath/sales.csv'') (Some sales_csv), Input (js ''hi''),
           Submit (Yields [Some (js ''ok'')] None)]
        (AIChat_constructor env_without_key blank_page)) = []"
    "attachedFile
     (run [FileChange (js ''C:/fakepath/sales.csv'') (Some sales_csv), Input (js ''hi''),
           Submit (Yields [Some (js ''ok'')] None)]
        (AIChat_constructor env_without_key blank_page)) = None"
    by blast+
  from t2 trim_hi have 2: "messages (sendMessage (js ''hi'') (Yields [Some (js ''ok'')] None)
       (run [] (AIChat_constructor env_without_key blank_page))) =
     [\<lparr>classList = error_message,
       content = TextContent (js ''Error: API_KEY environment variable not set.'')\<rparr>,
      \<lparr>classList = user_message, content = InnerHTML (js ''hi'')\<rparr>,
      \<lparr>classList = error_message, content = TextContent (js ''Error: chat is undefined'')\<rparr>]"
    by (simp add: e p markdown_Hel js_append)
  from t2 have 3: "messages (AIChat_constructor env_without_key blank_page) =
     [\<lparr>classList = error_message,
       content = TextContent (js ''Error: API_KEY environment variable not set.'')\<rparr>]"
    by (simp add: p)
  from k trim_hi 1 2 3 show ?thesis by blast
qed

text \<open>
  Claim C7, as stated, fails: after construction without a key the input is enabled, and
  typing a text and submitting it adds a user entry and a second error entry to the
  transcript.
\<close>

theorem missing_key_interaction_counterexample:
  "\<not> promptInput_disabled unconfigured \<and>
   messages unconfigured =
     [\<lparr>classList = error_message,
       content = TextContent (js ''Error: API_KEY environment variable not set.'')\<rparr>] \<and>
   messages (run [Input (js ''hi''), Submit (Yields [Some (js ''ok'')] None)] unconfigured) =
     [\<lparr>classList = error_message,
       content = TextContent (js ''Error: API_KEY environment variable not set.'')\<rparr>,
      \<lparr>classList = user_message, content = InnerHTML (js ''hi'')\<rparr>,
      \<lparr>classList = error_message, content = TextContent (js ''Error: chat is undefined'')\<rparr>]"
proof -
  let ?s = "unconfigured\<lparr>promptInput_value := js ''hi''\<rparr>"
  have d: "\<not> promptInput_disabled unconfigured" by (simp add: unconfigured_eq)
  then have r: "run [Input (js ''hi''), Submit (Yields [Some (js ''ok'')] None)] unconfigured =
      sendMessage (js ''hi'') (Yields [Some (js ''ok'')] None) ?s"
    by simp
  have c: "chat ?s = None" by (simp add: unconfigured_eq)
  have g: "trim (js ''hi'') \<noteq> [] \<or> attachedFile ?s \<noteq> None"
    using trim_hi by simp
  have "messages (run [Input (js ''hi''), Submit (Yields [Some (js ''ok'')] None)] unconfigured) =
     [\<lparr>classList = error_message,
       content = TextContent (js ''Error: API_KEY environment variable not set.'')\<rparr>,
      \<lparr>classList = user_message, content = InnerHTML (js ''hi'')\<rparr>,
      \<lparr>classList = error_message, content = TextContent (js ''Error: chat is undefined'')\<rparr>]"
    unfolding r sendMessage_without_chat [OF c g]
    by (simp add: effective_message_def markdown_Hel unconfigured_eq js_append)
  with d show ?thesis by (simp add: unconfigured_eq)
qed

end
